theory Spec2Isabelle
  imports Main "HOL-Library.Word" "HOL-Library.Sublist" "HOL-Library.AList"
begin

section \<open>Strings and paths\<close>

text \<open>
  Python strings are modelled as \<^typ>\<open>string\<close>; a \<^typ>\<open>char\<close> stands for a code point
  below 256. File contents are byte lists.
\<close>

type_synonym bytes = "8 word list"

text \<open>\<^verbatim>\<open>str.rfind(c)\<close>: the highest index of \<open>c\<close>, or \<open>-1\<close>.\<close>

fun rfind :: "string \<Rightarrow> char \<Rightarrow> int" where
  "rfind [] c = -1"
| "rfind (x # xs) c =
     (let r = rfind xs c in
      if r \<noteq> -1 then r + 1 else if x = c then 0 else -1)"

text \<open>
  \<^verbatim>\<open>os.path.splitext\<close> (posixpath, through \<^verbatim>\<open>genericpath._splitext\<close>): the extension
  starts at the last dot, provided that dot comes after the last separator and is
  preceded, within the last component, by a character that is not a dot.
\<close>

definition os_path_splitext :: "string \<Rightarrow> string \<times> string" where
  "os_path_splitext p =
     (let sepIndex = rfind p CHR ''/'';
          dotIndex = rfind p CHR ''.''
      in if dotIndex > sepIndex \<and>
            list_ex (\<lambda>c. c \<noteq> CHR ''.'')
              (take (nat (dotIndex - (sepIndex + 1))) (drop (nat (sepIndex + 1)) p))
         then (take (nat dotIndex) p, drop (nat dotIndex) p)
         else (p, []))"

text \<open>\<^verbatim>\<open>os.path.basename\<close>: what follows the last separator.\<close>

definition os_path_basename :: "string \<Rightarrow> string" where
  "os_path_basename p = drop (nat (rfind p CHR ''/'' + 1)) p"

text \<open>\<^verbatim>\<open>os.path.join(a, b)\<close> with two arguments.\<close>

definition os_path_join :: "string \<Rightarrow> string \<Rightarrow> string" where
  "os_path_join a b =
     (if b \<noteq> [] \<and> hd b = CHR ''/'' then b
      else if a = [] \<or> last a = CHR ''/'' then a @ b
      else a @ ''/'' @ b)"

text \<open>\<^verbatim>\<open>s.split('/')\<close>.\<close>

fun split_sep :: "string \<Rightarrow> string list" where
  "split_sep [] = [[]]"
| "split_sep (c # cs) =
     (if c = CHR ''/'' then [] # split_sep cs
      else (case split_sep cs of
              [] \<Rightarrow> [[c]]
            | x # xs \<Rightarrow> (c # x) # xs))"

text \<open>
  The file a path string names: its components, without the empty ones and the
  \<open>.\<close> ones. The working directory is the root of the store; \<open>..\<close> and symbolic
  links are not resolved.
\<close>

type_synonym path = "string list"

definition parts :: "string \<Rightarrow> path" where
  "parts s = filter (\<lambda>c. c \<noteq> [] \<and> c \<noteq> ''.'') (split_sep s)"

text \<open>A name a directory entry can have.\<close>

definition valid_name :: "string \<Rightarrow> bool" where
  "valid_name n = (n \<noteq> [] \<and> n \<noteq> ''.'' \<and> n \<noteq> ''..'' \<and> CHR ''/'' \<notin> set n)"

text \<open>
  \<^verbatim>\<open>fnmatch\<close> for the patterns the program uses: a leading \<open>*\<close> followed by literal
  text (no other wildcard). Matching is case sensitive.
\<close>

definition fnmatch :: "string \<Rightarrow> string \<Rightarrow> bool" where
  "fnmatch name pat =
     (case pat of
        [] \<Rightarrow> name = []
      | c # lit \<Rightarrow> if c = CHR ''*'' then suffix lit name else name = pat)"

text \<open>
  \<^verbatim>\<open>str.strip()\<close>: removes the characters for which \<^verbatim>\<open>str.isspace\<close> holds from both
  ends.
\<close>

definition isspace :: "char \<Rightarrow> bool" where
  "isspace c =
     (let n = (of_char c :: nat)
      in (9 \<le> n \<and> n \<le> 13) \<or> (28 \<le> n \<and> n \<le> 32) \<or> n = 133 \<or> n = 160)"

definition strip :: "string \<Rightarrow> string" where
  "strip s = rev (dropWhile isspace (rev (dropWhile isspace s)))"

text \<open>\<^verbatim>\<open>str(x)\<close> for \<open>x\<close> a string or \<^verbatim>\<open>None\<close>.\<close>

definition str :: "string option \<Rightarrow> string" where
  "str x = (case x of None \<Rightarrow> ''None'' | Some s \<Rightarrow> s)"

section \<open>The file store\<close>

text \<open>
  The store lists every file and directory with its path from the root. The order of
  the list is the order in which a directory scan reports the entries. The root itself
  is a directory and has no entry.
\<close>

datatype node = File bytes | Dir

type_synonym fs = "(path \<times> node) list"

definition lookup :: "fs \<Rightarrow> path \<Rightarrow> node option" where
  "lookup s p = (if p = [] then Some Dir else map_of s p)"

definition is_dir :: "fs \<Rightarrow> path \<Rightarrow> bool" where
  "is_dir s p = (lookup s p = Some Dir)"

text \<open>\<^verbatim>\<open>path.name\<close>: the final component.\<close>

definition name :: "path \<Rightarrow> string" where
  "name p = last p"

text \<open>
  \<^verbatim>\<open>Path(d).rglob(pat)\<close>: every entry (file or directory) at any depth below \<open>d\<close>
  whose name matches, each once; nothing when \<open>d\<close> is not a directory. The loops of
  the program leave the set of matching names as it is, so the generator is read as the
  list it yields when the loop starts.
\<close>

definition rglob :: "fs \<Rightarrow> string \<Rightarrow> string \<Rightarrow> path list" where
  "rglob s d pat =
     (if is_dir s (parts d)
      then filter (\<lambda>p. strict_prefix (parts d) p \<and> fnmatch (name p) pat) (map fst s)
      else [])"

section \<open>The world outside the interpreter\<close>

text \<open>The arguments of \<^verbatim>\<open>boto3.client('s3', ...)\<close>.\<close>

record s3_client =
  region_name :: string
  endpoint_url :: string
  aws_access_key_id :: string
  aws_secret_access_key :: string
  signature_version :: string

text \<open>The \<^verbatim>\<open>ExtraArgs\<close> dictionary; a key that is absent is \<open>None\<close>.\<close>

record extra_args =
  ContentType :: string
  ACL :: string
  ContentEncoding :: "string option"
  CacheControl :: string

text \<open>One call of \<^verbatim>\<open>s3.upload_fileobj(f, bucket, key, ExtraArgs=...)\<close>.\<close>

record upload =
  Fileobj :: bytes
  Bucket :: string
  Key :: string
  ExtraArgs :: extra_args

text \<open>
  Every call that leaves the interpreter is recorded, in order, when it is made
  (whether it then succeeds or raises).
\<close>

datatype event =
    Load_dotenv
  | Boto3_client s3_client
  | Open_rb string
  | Gzip_open_wb string
  | Os_replace string string
  | Os_remove string
  | Rmtree string
  | Subprocess_run "string list"
  | Upload_fileobj s3_client upload
  | Print string

datatype error =
    FileNotFoundError string
  | IsADirectoryError string
  | NotADirectoryError string
  | SubprocessOSError
  | S3UploadFailedError

record world =
  files :: fs
  trace :: "event list"

text \<open>
  What \<^verbatim>\<open>subprocess.run\<close> can do: raise because the executable cannot be started, or
  return once the process has exited with a status, the process having changed the file
  store as it pleased. \<^verbatim>\<open>subprocess.run\<close> without \<^verbatim>\<open>check=True\<close> does not raise on a
  non-zero status.
\<close>

datatype completed_process = Cannot_start | Exited int fs

text \<open>
  The external collaborators are parameters of the model: the integrity checker, the
  command that is run, the gzip encoder, the storage service's answer to an upload
  (given the calls made so far), and the variables of the \<^verbatim>\<open>.env\<close> file: what
  \<^verbatim>\<open>python-dotenv\<close> reads from the \<^verbatim>\<open>.env\<close> file on disk (no variable when there is
  no such file). That file is kept apart from the store \<open>files\<close>.
\<close>

record externals =
  integv_verify :: "bytes \<Rightarrow> bool"
  run_command :: "string list \<Rightarrow> fs \<Rightarrow> completed_process"
  gzip_compress :: "bytes \<Rightarrow> bytes"
  s3_accepts :: "event list \<Rightarrow> s3_client \<Rightarrow> upload \<Rightarrow> bool"
  dotenv_values :: "string \<rightharpoonup> string"

text \<open>
  A call returns a value or raises, and leaves the world as it is at that moment.
\<close>

type_synonym 'a result = "(error + 'a) \<times> world"

text \<open>The lines the program has printed.\<close>

definition stdout :: "world \<Rightarrow> string list" where
  "stdout w = concat (map (\<lambda>e. case e of Print s \<Rightarrow> [s] | _ \<Rightarrow> []) (trace w))"

definition log :: "event \<Rightarrow> world \<Rightarrow> world" where
  "log e w = w\<lparr>trace := trace w @ [e]\<rparr>"

definition print :: "string \<Rightarrow> world \<Rightarrow> world" where
  "print s w = log (Print s) w"

text \<open>\<^verbatim>\<open>open(p, 'rb')\<close> and reading the whole file.\<close>

definition open_rb :: "string \<Rightarrow> world \<Rightarrow> bytes result" where
  "open_rb p w =
     (let w' = log (Open_rb p) w in
      case lookup (files w) (parts p) of
        None \<Rightarrow> (Inl (FileNotFoundError p), w')
      | Some Dir \<Rightarrow> (Inl (IsADirectoryError p), w')
      | Some (File b) \<Rightarrow> (Inr b, w'))"

text \<open>
  \<^verbatim>\<open>gzip.open(p, 'wb')\<close>, writing \<open>content\<close> through it and closing it: the file \<open>p\<close>
  is created or overwritten and holds the encoder's output.
\<close>

definition gzip_open_wb :: "externals \<Rightarrow> string \<Rightarrow> bytes \<Rightarrow> world \<Rightarrow> unit result" where
  "gzip_open_wb X p content w =
     (let w' = log (Gzip_open_wb p) w in
      if is_dir (files w) (parts p) then (Inl (IsADirectoryError p), w')
      else if is_dir (files w) (butlast (parts p))
      then (Inr (), w'\<lparr>files := AList.update (parts p) (File (gzip_compress X content)) (files w)\<rparr>)
      else (Inl (FileNotFoundError p), w'))"

text \<open>
  \<^verbatim>\<open>os.replace(src, dst)\<close> for a regular file \<open>src\<close>: \<open>dst\<close> is overwritten. The
  program only ever renames the file it has just written; renaming a directory is
  reported as an error here.
\<close>

definition os_replace :: "string \<Rightarrow> string \<Rightarrow> world \<Rightarrow> unit result" where
  "os_replace src dst w =
     (let w' = log (Os_replace src dst) w in
      case lookup (files w) (parts src) of
        None \<Rightarrow> (Inl (FileNotFoundError src), w')
      | Some Dir \<Rightarrow> (Inl (IsADirectoryError src), w')
      | Some (File b) \<Rightarrow>
          if is_dir (files w) (parts dst) then (Inl (IsADirectoryError dst), w')
          else if is_dir (files w) (butlast (parts dst))
          then (Inr (), w'\<lparr>files :=
                  AList.update (parts dst) (File b) (AList.delete (parts src) (files w))\<rparr>)
          else (Inl (FileNotFoundError dst), w'))"

text \<open>\<^verbatim>\<open>os.remove(p)\<close>: removes a regular file.\<close>

definition os_remove :: "string \<Rightarrow> world \<Rightarrow> unit result" where
  "os_remove p w =
     (let w' = log (Os_remove p) w in
      case lookup (files w) (parts p) of
        None \<Rightarrow> (Inl (FileNotFoundError p), w')
      | Some Dir \<Rightarrow> (Inl (IsADirectoryError p), w')
      | Some (File b) \<Rightarrow> (Inr (), w'\<lparr>files := AList.delete (parts p) (files w)\<rparr>))"

text \<open>\<^verbatim>\<open>shutil.rmtree(p)\<close>: removes a directory and everything below it.\<close>

definition shutil_rmtree :: "string \<Rightarrow> world \<Rightarrow> unit result" where
  "shutil_rmtree p w =
     (let w' = log (Rmtree p) w in
      case lookup (files w) (parts p) of
        None \<Rightarrow> (Inl (FileNotFoundError p), w')
      | Some (File b) \<Rightarrow> (Inl (NotADirectoryError p), w')
      | Some Dir \<Rightarrow>
          (Inr (), w'\<lparr>files := filter (\<lambda>e. \<not> prefix (parts p) (fst e)) (files w)\<rparr>))"

text \<open>\<^verbatim>\<open>subprocess.run(args)\<close>, returning the exit status.\<close>

definition subprocess_run :: "externals \<Rightarrow> string list \<Rightarrow> world \<Rightarrow> int result" where
  "subprocess_run X args w =
     (let w' = log (Subprocess_run args) w in
      case run_command X args (files w) of
        Cannot_start \<Rightarrow> (Inl SubprocessOSError, w')
      | Exited code s' \<Rightarrow> (Inr code, w'\<lparr>files := s'\<rparr>))"

text \<open>\<^verbatim>\<open>s3.upload_fileobj(f, bucket, key, ExtraArgs=extra)\<close>.\<close>

definition upload_fileobj ::
  "externals \<Rightarrow> s3_client \<Rightarrow> bytes \<Rightarrow> string \<Rightarrow> string \<Rightarrow> extra_args \<Rightarrow> world \<Rightarrow> unit result" where
  "upload_fileobj X s3 f bucket key extra w =
     (let u = \<lparr>Fileobj = f, Bucket = bucket, Key = key, ExtraArgs = extra\<rparr>;
          w' = log (Upload_fileobj s3 u) w
      in if s3_accepts X (trace w) s3 u then (Inr (), w') else (Inl S3UploadFailedError, w'))"

text \<open>
  \<^verbatim>\<open>load_dotenv()\<close>: the \<^verbatim>\<open>.env\<close> file is read, and a variable of the file is set
  unless the environment already has it.
\<close>

definition load_dotenv ::
  "externals \<Rightarrow> (string \<rightharpoonup> string) \<Rightarrow> world \<Rightarrow> (string \<rightharpoonup> string) \<times> world" where
  "load_dotenv X environ w = (dotenv_values X ++ environ, log Load_dotenv w)"

definition boto3_client :: "s3_client \<Rightarrow> world \<Rightarrow> s3_client \<times> world" where
  "boto3_client c w = (c, log (Boto3_client c) w)"

section \<open>The program\<close>

definition verify_mp4_integrity :: "externals \<Rightarrow> bytes \<Rightarrow> bool" where
  "verify_mp4_integrity X mp4_file = integv_verify X mp4_file"

definition convert_mp4_to_hsl :: "externals \<Rightarrow> string \<Rightarrow> world \<Rightarrow> string result" where
  "convert_mp4_to_hsl X path_to_mp4 w =
     (let path_no_ext = fst (os_path_splitext path_to_mp4) in
      case subprocess_run X
             [''video2hls/video2hls'', ''--debug'', ''--output'', path_no_ext @ ''.fmp4'',
              ''--hls-type'', ''fmp4'', path_to_mp4] w of
        (Inl e, w1) \<Rightarrow> (Inl e, w1)
      | (Inr code, w1) \<Rightarrow>
          (case os_remove path_to_mp4 w1 of
             (Inl e, w2) \<Rightarrow> (Inl e, w2)
           | (Inr u, w2) \<Rightarrow> (Inr (path_no_ext @ ''.fmp4''), w2)))"

text \<open>The body of the loop of \<^verbatim>\<open>compress_fmp4\<close>, over the paths the glob yields.\<close>

fun compress_loop :: "externals \<Rightarrow> string \<Rightarrow> path list \<Rightarrow> world \<Rightarrow> unit result" where
  "compress_loop X path_to_fmp4 [] w = (Inr (), w)"
| "compress_loop X path_to_fmp4 (path # rest) w =
     (let filepath = os_path_join path_to_fmp4 (name path) in
      case open_rb filepath w of
        (Inl e, w1) \<Rightarrow> (Inl e, w1)
      | (Inr f_in, w1) \<Rightarrow>
          (case gzip_open_wb X (filepath @ ''.gz'') f_in w1 of
             (Inl e, w2) \<Rightarrow> (Inl e, w2)
           | (Inr u, w2) \<Rightarrow>
               (case os_replace (filepath @ ''.gz'') filepath w2 of
                  (Inl e, w3) \<Rightarrow> (Inl e, w3)
                | (Inr u', w3) \<Rightarrow> compress_loop X path_to_fmp4 rest w3)))"

definition compress_fmp4 :: "externals \<Rightarrow> string \<Rightarrow> world \<Rightarrow> unit result" where
  "compress_fmp4 X path_to_fmp4 w =
     (case compress_loop X path_to_fmp4 (rglob (files w) path_to_fmp4 ''*.m3u8'') w of
        (Inl e, w1) \<Rightarrow> (Inl e, w1)
      | (Inr u, w1) \<Rightarrow> (Inr (), print ''Compressed all files with gzip'' w1))"

text \<open>
  The three loops of \<^verbatim>\<open>upload_to_aws\<close> have the same body and differ in the
  \<^verbatim>\<open>ExtraArgs\<close> only, which is the parameter \<open>extra\<close> here.
\<close>

fun upload_loop ::
  "externals \<Rightarrow> s3_client \<Rightarrow> string \<Rightarrow> string \<Rightarrow> string \<Rightarrow> extra_args \<Rightarrow> path list \<Rightarrow>
   world \<Rightarrow> unit result" where
  "upload_loop X s3 bucket_name fmp4_filename path_to_fmp4 extra [] w = (Inr (), w)"
| "upload_loop X s3 bucket_name fmp4_filename path_to_fmp4 extra (path # rest) w =
     (let filepath = os_path_join path_to_fmp4 (name path) in
      case open_rb filepath w of
        (Inl e, w1) \<Rightarrow> (Inl e, w1)
      | (Inr f, w1) \<Rightarrow>
          (let key = name path in
           case upload_fileobj X s3 f bucket_name (''hls/'' @ fmp4_filename @ ''/'' @ key)
                  extra w1 of
             (Inl e, w2) \<Rightarrow> (Inl e, w2)
           | (Inr u, w2) \<Rightarrow>
               upload_loop X s3 bucket_name fmp4_filename path_to_fmp4 extra rest w2))"

definition m3u8_args :: extra_args where
  "m3u8_args =
     \<lparr>ContentType = ''application/vnd.apple.mpegurl'', ACL = ''public-read'',
      ContentEncoding = Some ''gzip'', CacheControl = ''max-age=31536000,public''\<rparr>"

definition jpg_args :: extra_args where
  "jpg_args =
     \<lparr>ContentType = ''image/jpeg'', ACL = ''public-read'',
      ContentEncoding = None, CacheControl = ''max-age=31536000,public''\<rparr>"

definition mp4_args :: extra_args where
  "mp4_args =
     \<lparr>ContentType = ''video/mp4'', ACL = ''public-read'',
      ContentEncoding = None, CacheControl = ''max-age=31536000,public''\<rparr>"

definition get_object_url :: "string \<Rightarrow> string \<Rightarrow> string \<Rightarrow> string" where
  "get_object_url bucket_name bucket_region fmp4_filename =
     ''https://'' @ bucket_name @ ''.s3.'' @ bucket_region @ ''.amazonaws.com/hls/'' @
     fmp4_filename @ ''/index.m3u8''"

definition upload_to_aws ::
  "externals \<Rightarrow> s3_client \<Rightarrow> string \<Rightarrow> string \<Rightarrow> string \<Rightarrow> world \<Rightarrow> string result" where
  "upload_to_aws X s3 bucket_name bucket_region path_to_fmp4 w =
     (let fmp4_filename = os_path_basename path_to_fmp4 in
      case upload_loop X s3 bucket_name fmp4_filename path_to_fmp4 m3u8_args
             (rglob (files w) path_to_fmp4 ''*.m3u8'') w of
        (Inl e, w1) \<Rightarrow> (Inl e, w1)
      | (Inr u1, w1) \<Rightarrow>
          (case upload_loop X s3 bucket_name fmp4_filename path_to_fmp4 jpg_args
                  (rglob (files w1) path_to_fmp4 ''*.jpg'') w1 of
             (Inl e, w2) \<Rightarrow> (Inl e, w2)
           | (Inr u2, w2) \<Rightarrow>
               (case upload_loop X s3 bucket_name fmp4_filename path_to_fmp4 mp4_args
                       (rglob (files w2) path_to_fmp4 ''*.mp4'') w2 of
                  (Inl e, w3) \<Rightarrow> (Inl e, w3)
                | (Inr u3, w3) \<Rightarrow>
                    (Inr (get_object_url bucket_name bucket_region fmp4_filename), w3))))"

definition remove_fmp4 :: "string \<Rightarrow> world \<Rightarrow> unit result" where
  "remove_fmp4 path_to_fmp4 w = shutil_rmtree path_to_fmp4 w"

definition REGION_NAME :: string where
  "REGION_NAME = ''us-east-2''"

definition BUCKET_NAME :: string where
  "BUCKET_NAME = ''appdev-backend-final''"

text \<open>
  \<^verbatim>\<open>main\<close>, started on a file store with the process environment \<open>environ\<close> and the
  command line \<open>argv\<close> (\<open>argv ! 0\<close> is the script).
\<close>

definition main ::
  "externals \<Rightarrow> (string \<rightharpoonup> string) \<Rightarrow> string list \<Rightarrow> fs \<Rightarrow> unit result" where
  "main X environ argv s =
     (let w0 = \<lparr>files = s, trace = []\<rparr>;
          (environ1, w1) = load_dotenv X environ w0;
          ACCESS_KEY_ID = strip (str (environ1 ''ACCESS_KEY_ID''));
          SECRET_ACCESS_KEY = strip (str (environ1 ''SECRET_ACCESS_KEY''));
          (s3, w2) = boto3_client
             \<lparr>region_name = REGION_NAME,
              endpoint_url = ''https://s3.'' @ REGION_NAME @ ''.amazonaws.com'',
              aws_access_key_id = ACCESS_KEY_ID,
              aws_secret_access_key = SECRET_ACCESS_KEY,
              signature_version = ''s3v4''\<rparr> w1
      in if length argv < 2
         then (Inr (), print ''Usage: <FILENAME>.py path/to/file.mp4'' w2)
         else
           (let path_to_mp4 = argv ! 1 in
            case open_rb path_to_mp4 w2 of
              (Inl e, w3) \<Rightarrow> (Inl e, w3)
            | (Inr f, w3) \<Rightarrow>
                if \<not> verify_mp4_integrity X f then (Inr (), print ''Corrupt MP4'' w3)
                else
                  (case convert_mp4_to_hsl X path_to_mp4 w3 of
                     (Inl e, w4) \<Rightarrow> (Inl e, w4)
                   | (Inr path_to_fmp4, w4) \<Rightarrow>
                       (case compress_fmp4 X path_to_fmp4 w4 of
                          (Inl e, w5) \<Rightarrow> (Inl e, w5)
                        | (Inr u, w5) \<Rightarrow>
                            (case upload_to_aws X s3 BUCKET_NAME REGION_NAME path_to_fmp4 w5 of
                               (Inl e, w6) \<Rightarrow> (Inl e, w6)
                             | (Inr url, w6) \<Rightarrow> remove_fmp4 path_to_fmp4 (print url w6))))))"

text \<open>
  Names for two things \<^verbatim>\<open>main\<close> builds before it looks at its arguments: the client
  it constructs, and the world once the environment is loaded and the client exists.
\<close>

definition main_s3 :: "externals \<Rightarrow> (string \<rightharpoonup> string) \<Rightarrow> s3_client" where
  "main_s3 X environ =
     \<lparr>region_name = REGION_NAME,
      endpoint_url = ''https://s3.'' @ REGION_NAME @ ''.amazonaws.com'',
      aws_access_key_id = strip (str ((dotenv_values X ++ environ) ''ACCESS_KEY_ID'')),
      aws_secret_access_key = strip (str ((dotenv_values X ++ environ) ''SECRET_ACCESS_KEY'')),
      signature_version = ''s3v4''\<rparr>"

definition started :: "externals \<Rightarrow> (string \<rightharpoonup> string) \<Rightarrow> fs \<Rightarrow> world" where
  "started X environ s =
     \<lparr>files = s, trace = [Load_dotenv, Boto3_client (main_s3 X environ)]\<rparr>"

section \<open>Example runs\<close>

text \<open>
  A stand-in for the gzip encoder in the examples: it puts the two magic bytes of the
  format in front of its input.
\<close>

definition demo_gzip :: "bytes \<Rightarrow> bytes" where
  "demo_gzip b = 31 # 139 # b"

text \<open>
  The example of the specification: the segmenter turns \<^verbatim>\<open>clip.mp4\<close> into a directory
  \<^verbatim>\<open>clip.fmp4\<close> with one manifest, one fragment and one poster, and exits with
  status 0; the storage service accepts every upload.
\<close>

definition demo_output :: fs where
  "demo_output =
     [([''clip.fmp4''], Dir),
      ([''clip.fmp4'', ''index.m3u8''], File [35, 69]),
      ([''clip.fmp4'', ''seg0.mp4''], File [3]),
      ([''clip.fmp4'', ''poster.jpg''], File [255, 216])]"

definition demo_externals :: externals where
  "demo_externals =
     \<lparr>integv_verify = (\<lambda>b. b \<noteq> []),
      run_command = (\<lambda>args s. Exited 0 (s @ demo_output)),
      gzip_compress = demo_gzip,
      s3_accepts = (\<lambda>t c u. True),
      dotenv_values = Map.empty\<rparr>"

definition demo_store :: fs where
  "demo_store = [([''clip.mp4''], File [0, 0, 0, 24])]"

definition demo_client :: s3_client where
  "demo_client =
     \<lparr>region_name = ''region'', endpoint_url = ''https://s3.region.amazonaws.com'',
      aws_access_key_id = ''id'', aws_secret_access_key = ''secret'',
      signature_version = ''s3v4''\<rparr>"

text \<open>
  A segmenter that fails: it exits with status 1 and writes nothing. A storage service
  that refuses every upload.
\<close>

definition failing_segmenter :: externals where
  "failing_segmenter = demo_externals\<lparr>run_command := (\<lambda>args s. Exited 1 s)\<rparr>"

definition refusing_storage :: externals where
  "refusing_storage = demo_externals\<lparr>s3_accepts := (\<lambda>t c u. False)\<rparr>"

text \<open>A segmenter that cannot be started.\<close>

definition missing_segmenter :: externals where
  "missing_segmenter = demo_externals\<lparr>run_command := (\<lambda>args s. Cannot_start)\<rparr>"

text \<open>A \<^verbatim>\<open>.env\<close> file that sets one of the two credentials.\<close>

definition dotenv_externals :: externals where
  "dotenv_externals = demo_externals\<lparr>dotenv_values := [''ACCESS_KEY_ID'' \<mapsto> ''AKIA1'']\<rparr>"

text \<open>A store whose only file is empty, which the example's integrity checker rejects.\<close>

definition corrupt_store :: fs where
  "corrupt_store = [([''broken.mp4''], File [])]"

text \<open>
  An output directory with a manifest at the top and a manifest of the same name in a
  subdirectory.
\<close>

definition nested_output :: fs where
  "nested_output =
     [([''clip.fmp4''], Dir),
      ([''clip.fmp4'', ''index.m3u8''], File [35, 69]),
      ([''clip.fmp4'', ''sub''], Dir),
      ([''clip.fmp4'', ''sub'', ''index.m3u8''], File [35, 70])]"

text \<open>An output directory whose only manifest is in a subdirectory.\<close>

definition nested_only_output :: fs where
  "nested_only_output =
     [([''clip.fmp4''], Dir),
      ([''clip.fmp4'', ''sub''], Dir),
      ([''clip.fmp4'', ''sub'', ''index.m3u8''], File [35, 70])]"

section \<open>Paths\<close>

lemma split_sep_not_Nil: "split_sep s \<noteq> []"
  by (induction s) (auto split: list.splits)

lemma split_sep_no_sep: "CHR ''/'' \<notin> set n \<Longrightarrow> split_sep n = [n]"
  by (induction n) auto

lemma split_sep_append_no_sep:
  "CHR ''/'' \<notin> set b \<Longrightarrow> split_sep (a @ b) = butlast (split_sep a) @ [last (split_sep a) @ b]"
proof (induction a)
  case Nil
  then show ?case by (simp add: split_sep_no_sep)
next
  case (Cons c a)
  then show ?case
    using split_sep_not_Nil[of a] split_sep_not_Nil[of "a @ b"]
    by (auto split: list.splits simp: butlast_append)
qed

lemma split_sep_append_sep: "split_sep (a @ CHR ''/'' # b) = split_sep a @ split_sep b"
proof (induction a)
  case Nil
  then show ?case by simp
next
  case (Cons c a)
  then show ?case using split_sep_not_Nil[of a]
    by (cases "split_sep a") auto
qed

lemma split_sep_last_sep:
  assumes "a \<noteq> []" "last a = CHR ''/''"
  shows "last (split_sep a) = []"
proof -
  from assms have "a = butlast a @ CHR ''/'' # []"
    by (metis append_butlast_last_id)
  then have "split_sep a = split_sep (butlast a) @ [[]]"
    by (metis split_sep_append_sep split_sep.simps(1))
  then show ?thesis by simp
qed

lemma parts_append_no_sep:
  assumes "CHR ''/'' \<notin> set b" "last (split_sep a) @ b \<noteq> []" "last (split_sep a) @ b \<noteq> ''.''"
  shows "parts (a @ b) = filter (\<lambda>c. c \<noteq> [] \<and> c \<noteq> ''.'') (butlast (split_sep a)) @ [last (split_sep a) @ b]"
  using assms by (simp add: parts_def split_sep_append_no_sep)

lemma parts_join:
  assumes "valid_name n"
  shows "parts (os_path_join d n) = parts d @ [n]"
proof -
  from assms have n: "n \<noteq> []" "n \<noteq> ''.''" "CHR ''/'' \<notin> set n" "hd n \<noteq> CHR ''/''"
    by (cases n; auto simp: valid_name_def)+
  show ?thesis
  proof (cases "d = [] \<or> last d = CHR ''/''")
    case True
    then have j: "os_path_join d n = d @ n" using n by (simp add: os_path_join_def)
    have l: "last (split_sep d) = []"
      using True split_sep_last_sep[of d] by (cases "d = []") auto
    have "parts d = filter (\<lambda>c. c \<noteq> [] \<and> c \<noteq> ''.'') (butlast (split_sep d) @ [last (split_sep d)])"
      using split_sep_not_Nil[of d] by (simp add: parts_def)
    then have "parts d = filter (\<lambda>c. c \<noteq> [] \<and> c \<noteq> ''.'') (butlast (split_sep d))"
      using l by simp
    then show ?thesis using n l by (simp add: j parts_append_no_sep)
  next
    case False
    then have j: "os_path_join d n = d @ CHR ''/'' # n" using n by (simp add: os_path_join_def)
    show ?thesis using n by (simp add: j split_sep_append_sep parts_def split_sep_no_sep)
  qed
qed

lemma valid_name_gz: "valid_name n \<Longrightarrow> valid_name (n @ ''.gz'')"
  by (cases n) (auto simp: valid_name_def)

lemma os_path_join_append:
  "b \<noteq> [] \<Longrightarrow> hd b \<noteq> CHR ''/'' \<Longrightarrow> os_path_join a b @ c = os_path_join a (b @ c)"
  by (auto simp: os_path_join_def)

lemma parts_join_gz:
  assumes "valid_name n"
  shows "parts (os_path_join d n @ ''.gz'') = parts d @ [n @ ''.gz'']"
proof -
  from assms have "n \<noteq> []" "hd n \<noteq> CHR ''/''"
    by (cases n; auto simp: valid_name_def)+
  then have "os_path_join d n @ ''.gz'' = os_path_join d (n @ ''.gz'')"
    by (rule os_path_join_append)
  then show ?thesis using parts_join[OF valid_name_gz[OF assms]] by simp
qed

section \<open>The published URL\<close>

lemmas op_defs =
  log_def print_def open_rb_def gzip_open_wb_def os_replace_def os_remove_def
  shutil_rmtree_def subprocess_run_def upload_fileobj_def load_dotenv_def boto3_client_def
  lookup_def is_dir_def name_def

lemmas path_defs =
  parts_def os_path_join_def os_path_basename_def os_path_splitext_def fnmatch_def
  suffix_to_prefix rglob_def

lemmas program_defs =
  verify_mp4_integrity_def convert_mp4_to_hsl_def compress_fmp4_def upload_to_aws_def
  get_object_url_def remove_fmp4_def m3u8_args_def jpg_args_def mp4_args_def

text \<open>
  C4. The URL that \<^verbatim>\<open>upload_to_aws\<close> returns is
  \<^verbatim>\<open>https://{bucket}.s3.{region}.amazonaws.com/hls/{base_name}/index.m3u8\<close>, where the base
  name is \<^verbatim>\<open>os.path.basename\<close> of the output directory. It is computed by
  \<^verbatim>\<open>get_object_url\<close> from these three strings alone: two runs with the same bucket,
  region and base name return the same URL, whatever the file store, the client and the
  storage service's answers are.
\<close>

theorem published_url_is_deterministic:
  "get_object_url bucket region base =
     ''https://'' @ bucket @ ''.s3.'' @ region @ ''.amazonaws.com/hls/'' @ base @ ''/index.m3u8''
   \<and> (upload_to_aws X s3 bucket region d w = (Inr url, w') \<longrightarrow>
        url = get_object_url bucket region (os_path_basename d))
   \<and> (upload_to_aws X s3 bucket region d w = (Inr url, w') \<and>
        upload_to_aws X2 s32 bucket region d2 w2 = (Inr url2, w2') \<and>
        os_path_basename d2 = os_path_basename d \<longrightarrow> url2 = url)"
proof -
  have ret: "u = get_object_url b r (os_path_basename p)"
    if "upload_to_aws Y c b r p v = (Inr u, v')" for Y c b r p v u v'
    using that
    by (auto simp: upload_to_aws_def Let_def split: prod.splits sum.splits)
  show ?thesis
    using ret[of X s3 bucket region d w url w'] ret[of X2 s32 bucket region d2 w2 url2 w2']
    by (auto simp: get_object_url_def)
qed

theorem published_url_is_deterministic_witness:
  "upload_to_aws demo_externals demo_client ''bucket'' ''region'' ''out/clip.fmp4''
     \<lparr>files = demo_output, trace = []\<rparr>
   = (Inr ''https://bucket.s3.region.amazonaws.com/hls/clip.fmp4/index.m3u8'',
      snd (upload_to_aws demo_externals demo_client ''bucket'' ''region'' ''out/clip.fmp4''
             \<lparr>files = demo_output, trace = []\<rparr>))
   \<and> upload_to_aws demo_externals demo_client ''bucket'' ''region'' ''clip.fmp4''
     \<lparr>files = demo_output, trace = []\<rparr>
   = (Inr ''https://bucket.s3.region.amazonaws.com/hls/clip.fmp4/index.m3u8'',
      snd (upload_to_aws demo_externals demo_client ''bucket'' ''region'' ''clip.fmp4''
             \<lparr>files = demo_output, trace = []\<rparr>))"
proof -
  let ?w = "\<lparr>files = demo_output, trace = []\<rparr>"
  let ?r1 = "upload_to_aws demo_externals demo_client ''bucket'' ''region'' ''out/clip.fmp4'' ?w"
  let ?r2 = "upload_to_aws demo_externals demo_client ''bucket'' ''region'' ''clip.fmp4'' ?w"
  have b: "os_path_basename ''out/clip.fmp4'' = os_path_basename ''clip.fmp4''"
    by (simp add: os_path_basename_def)
  have f2: "fst ?r2 = Inr ''https://bucket.s3.region.amazonaws.com/hls/clip.fmp4/index.m3u8''"
    by (simp add: program_defs op_defs path_defs demo_externals_def demo_output_def Let_def)
  have f1: "\<exists>u. fst ?r1 = Inr u"
    by (simp add: program_defs op_defs path_defs demo_externals_def demo_output_def Let_def)
  then obtain u where u: "?r1 = (Inr u, snd ?r1)"
    by (metis prod.collapse)
  from f2 have r2: "?r2 = (Inr ''https://bucket.s3.region.amazonaws.com/hls/clip.fmp4/index.m3u8'', snd ?r2)"
    by (metis prod.collapse)
  from published_url_is_deterministic
         [of "''bucket''" "''region''" "''clip.fmp4''" demo_externals demo_client
             "''clip.fmp4''" ?w _ "snd ?r2" demo_externals demo_client "''out/clip.fmp4''" ?w u
             "snd ?r1"]
       r2 u b
  have "u = ''https://bucket.s3.region.amazonaws.com/hls/clip.fmp4/index.m3u8''"
    by simp
  with u r2 show ?thesis by simp
qed

section \<open>What each call does to the world\<close>

lemma open_rb_world: "snd (open_rb p w) = log (Open_rb p) w"
  by (simp add: open_rb_def Let_def split: option.splits node.splits)

lemma open_rb_Inr:
  "open_rb p w = (Inr b, w') \<Longrightarrow> lookup (files w) (parts p) = Some (File b)"
  by (auto simp: open_rb_def Let_def split: option.splits node.splits)

lemma open_rb_File:
  "lookup (files w) (parts p) = Some (File b) \<Longrightarrow> open_rb p w = (Inr b, log (Open_rb p) w)"
  by (simp add: open_rb_def Let_def)

lemma gzip_open_wb_trace: "trace (snd (gzip_open_wb X p c w)) = trace w @ [Gzip_open_wb p]"
  by (simp add: gzip_open_wb_def Let_def log_def)

lemma os_replace_trace: "trace (snd (os_replace a b w)) = trace w @ [Os_replace a b]"
  by (simp add: os_replace_def Let_def log_def split: option.splits node.splits)

lemma os_remove_trace: "trace (snd (os_remove p w)) = trace w @ [Os_remove p]"
  by (simp add: os_remove_def Let_def log_def split: option.splits node.splits)

lemma shutil_rmtree_trace: "trace (snd (shutil_rmtree p w)) = trace w @ [Rmtree p]"
  by (simp add: shutil_rmtree_def Let_def log_def split: option.splits node.splits)

lemma subprocess_run_trace:
  "trace (snd (subprocess_run X args w)) = trace w @ [Subprocess_run args]"
  by (simp add: subprocess_run_def Let_def log_def split: completed_process.splits)

lemma upload_fileobj_world:
  "snd (upload_fileobj X s3 f b k extra w) =
     log (Upload_fileobj s3 \<lparr>Fileobj = f, Bucket = b, Key = k, ExtraArgs = extra\<rparr>) w"
  by (simp add: upload_fileobj_def Let_def)

lemma trace_log: "trace (log e w) = trace w @ [e]"
  by (simp add: log_def)

lemma files_log: "files (log e w) = files w"
  by (simp add: log_def)

section \<open>The calls of the two loops\<close>

lemma compress_loop_calls:
  "\<exists>evs. trace (snd (compress_loop X d ps w)) = trace w @ evs \<and>
     (\<forall>e \<in> set evs. \<exists>m \<in> set ps.
        e = Open_rb (os_path_join d (name m)) \<or>
        e = Gzip_open_wb (os_path_join d (name m) @ ''.gz'') \<or>
        e = Os_replace (os_path_join d (name m) @ ''.gz'') (os_path_join d (name m)))"
proof (induction ps arbitrary: w)
  case Nil
  then show ?case by simp
next
  case (Cons p ps)
  let ?fp = "os_path_join d (name p)"
  obtain r1 w1 where o: "open_rb ?fp w = (r1, w1)" by (cases "open_rb ?fp w")
  then have t1: "trace w1 = trace w @ [Open_rb ?fp]"
    using open_rb_world[of ?fp w] by (simp add: trace_log)
  show ?case
  proof (cases r1)
    case (Inl e)
    then show ?thesis using o t1 by simp
  next
    case (Inr f_in)
    obtain r2 w2 where g: "gzip_open_wb X (?fp @ ''.gz'') f_in w1 = (r2, w2)"
      by (cases "gzip_open_wb X (?fp @ ''.gz'') f_in w1")
    then have t2: "trace w2 = trace w @ [Open_rb ?fp, Gzip_open_wb (?fp @ ''.gz'')]"
      using gzip_open_wb_trace[of X "?fp @ ''.gz''" f_in w1] t1 by simp
    show ?thesis
    proof (cases r2)
      case (Inl e)
      then show ?thesis using o Inr g t2 by simp
    next
      case r2: (Inr u)
      obtain r3 w3 where r: "os_replace (?fp @ ''.gz'') ?fp w2 = (r3, w3)"
        by (cases "os_replace (?fp @ ''.gz'') ?fp w2")
      then have t3: "trace w3 = trace w @ [Open_rb ?fp, Gzip_open_wb (?fp @ ''.gz''),
                       Os_replace (?fp @ ''.gz'') ?fp]"
        using os_replace_trace[of "?fp @ ''.gz''" ?fp w2] t2 by simp
      show ?thesis
      proof (cases r3)
        case (Inl e)
        then show ?thesis using o Inr g r2 r t3 by simp
      next
        case r3: (Inr u')
        from Cons.IH[of w3] obtain evs where
          evs: "trace (snd (compress_loop X d ps w3)) = trace w3 @ evs"
          and q: "\<forall>e \<in> set evs. \<exists>m \<in> set ps.
            e = Open_rb (os_path_join d (name m)) \<or>
            e = Gzip_open_wb (os_path_join d (name m) @ ''.gz'') \<or>
            e = Os_replace (os_path_join d (name m) @ ''.gz'') (os_path_join d (name m))"
          by blast
        have "compress_loop X d (p # ps) w = compress_loop X d ps w3"
          using o Inr g r2 r r3 by simp
        then show ?thesis using evs t3 q by auto
      qed
    qed
  qed
qed


lemma upload_fileobj_files: "files (snd (upload_fileobj X s3 f b k extra w)) = files w"
  by (simp add: upload_fileobj_world files_log)

lemma upload_loop_calls:
  "files (snd (upload_loop X s3 b base d extra ps w)) = files w \<and>
   (\<exists>evs. trace (snd (upload_loop X s3 b base d extra ps w)) = trace w @ evs \<and>
     (\<forall>e \<in> set evs. \<exists>m \<in> set ps.
        e = Open_rb (os_path_join d (name m)) \<or>
        (\<exists>body. e = Upload_fileobj s3
             \<lparr>Fileobj = body, Bucket = b, Key = ''hls/'' @ base @ ''/'' @ name m,
              ExtraArgs = extra\<rparr> \<and>
           lookup (files w) (parts (os_path_join d (name m))) = Some (File body))))"
proof (induction ps arbitrary: w)
  case Nil
  then show ?case by simp
next
  case (Cons p ps)
  let ?fp = "os_path_join d (name p)"
  obtain r1 w1 where o: "open_rb ?fp w = (r1, w1)" by (cases "open_rb ?fp w")
  then have w1: "w1 = log (Open_rb ?fp) w"
    using open_rb_world[of ?fp w] by simp
  show ?case
  proof (cases r1)
    case (Inl e)
    then show ?thesis using o w1 by (simp add: trace_log files_log)
  next
    case (Inr f)
    then have look: "lookup (files w) (parts ?fp) = Some (File f)"
      using o open_rb_Inr by blast
    let ?k = "''hls/'' @ base @ ''/'' @ name p"
    let ?u = "\<lparr>Fileobj = f, Bucket = b, Key = ?k, ExtraArgs = extra\<rparr>"
    obtain r2 w2 where g: "upload_fileobj X s3 f b ?k extra w1 = (r2, w2)"
      by (cases "upload_fileobj X s3 f b ?k extra w1")
    then have w2: "w2 = log (Upload_fileobj s3 ?u) w1"
      using upload_fileobj_world[of X s3 f b ?k extra w1] by simp
    have t2: "trace w2 = trace w @ [Open_rb ?fp, Upload_fileobj s3 ?u]" "files w2 = files w"
      using w1 w2 by (simp_all add: trace_log files_log)
    show ?thesis
    proof (cases r2)
      case (Inl e)
      then show ?thesis using o Inr g t2 look by simp
    next
      case r2: (Inr u)
      from Cons.IH[of w2] obtain evs where
        fl: "files (snd (upload_loop X s3 b base d extra ps w2)) = files w2"
        and evs: "trace (snd (upload_loop X s3 b base d extra ps w2)) = trace w2 @ evs"
        and q: "\<forall>e \<in> set evs. \<exists>m \<in> set ps.
          e = Open_rb (os_path_join d (name m)) \<or>
          (\<exists>body. e = Upload_fileobj s3
             \<lparr>Fileobj = body, Bucket = b, Key = ''hls/'' @ base @ ''/'' @ name m,
              ExtraArgs = extra\<rparr> \<and>
           lookup (files w2) (parts (os_path_join d (name m))) = Some (File body))"
        by blast
      have "upload_loop X s3 b base d extra (p # ps) w = upload_loop X s3 b base d extra ps w2"
        using o Inr g r2 by simp
      then show ?thesis using evs t2 q fl look by auto
    qed
  qed
qed


lemma rglob_subset: "set (rglob s d pat) \<subseteq> set (map fst s)"
  by (auto simp: rglob_def)

lemma compress_fmp4_calls:
  "\<exists>evs. trace (snd (compress_fmp4 X d w)) = trace w @ evs \<and>
     (\<forall>e \<in> set evs. e = Print ''Compressed all files with gzip'' \<or>
        (\<exists>m \<in> set (rglob (files w) d ''*.m3u8'').
           e = Open_rb (os_path_join d (name m)) \<or>
           e = Gzip_open_wb (os_path_join d (name m) @ ''.gz'') \<or>
           e = Os_replace (os_path_join d (name m) @ ''.gz'') (os_path_join d (name m))))"
proof -
  let ?ps = "rglob (files w) d ''*.m3u8''"
  from compress_loop_calls[of X d ?ps w] obtain evs where
    evs: "trace (snd (compress_loop X d ?ps w)) = trace w @ evs"
    and q: "\<forall>e \<in> set evs. \<exists>m \<in> set ?ps.
        e = Open_rb (os_path_join d (name m)) \<or>
        e = Gzip_open_wb (os_path_join d (name m) @ ''.gz'') \<or>
        e = Os_replace (os_path_join d (name m) @ ''.gz'') (os_path_join d (name m))"
    by blast
  obtain r w1 where l: "compress_loop X d ?ps w = (r, w1)"
    by (cases "compress_loop X d ?ps w")
  show ?thesis
  proof (cases r)
    case (Inl e)
    then have "trace (snd (compress_fmp4 X d w)) = trace w @ evs"
      using l evs by (simp add: compress_fmp4_def)
    then show ?thesis using q by blast
  next
    case (Inr u)
    then have "trace (snd (compress_fmp4 X d w)) =
                 trace w @ (evs @ [Print ''Compressed all files with gzip''])"
      using l evs by (simp add: compress_fmp4_def print_def trace_log)
    moreover have "\<forall>e \<in> set (evs @ [Print ''Compressed all files with gzip'']).
        e = Print ''Compressed all files with gzip'' \<or>
        (\<exists>m \<in> set ?ps.
           e = Open_rb (os_path_join d (name m)) \<or>
           e = Gzip_open_wb (os_path_join d (name m) @ ''.gz'') \<or>
           e = Os_replace (os_path_join d (name m) @ ''.gz'') (os_path_join d (name m)))"
      using q by auto
    ultimately show ?thesis by blast
  qed
qed

lemma upload_to_aws_calls:
  "files (snd (upload_to_aws X s3 b r d w)) = files w \<and>
   (\<exists>evs. trace (snd (upload_to_aws X s3 b r d w)) = trace w @ evs \<and>
     (\<forall>e \<in> set evs.
        \<exists>m \<in> set (rglob (files w) d ''*.m3u8'' @ rglob (files w) d ''*.jpg'' @
                   rglob (files w) d ''*.mp4'').
          e = Open_rb (os_path_join d (name m)) \<or>
          (\<exists>body extra. e = Upload_fileobj s3
               \<lparr>Fileobj = body, Bucket = b,
                Key = ''hls/'' @ os_path_basename d @ ''/'' @ name m, ExtraArgs = extra\<rparr> \<and>
             lookup (files w) (parts (os_path_join d (name m))) = Some (File body))))"
proof -
  let ?base = "os_path_basename d"
  define R where "R = (\<lambda>m e.
          e = Open_rb (os_path_join d (name m)) \<or>
          (\<exists>body extra. e = Upload_fileobj s3
               \<lparr>Fileobj = body, Bucket = b,
                Key = ''hls/'' @ os_path_basename d @ ''/'' @ name m, ExtraArgs = extra\<rparr> \<and>
             lookup (files w) (parts (os_path_join d (name m))) = Some (File body)))"
  have step: "files (snd (upload_loop X s3 b ?base d extra ps v)) = files v \<and>
      (\<exists>evs. trace (snd (upload_loop X s3 b ?base d extra ps v)) = trace v @ evs \<and>
         (\<forall>e \<in> set evs. \<exists>m \<in> set ps. R m e))" if "files v = files w" for extra ps v
    using upload_loop_calls[of X s3 b ?base d extra ps v] that unfolding R_def by metis
  let ?p1 = "rglob (files w) d ''*.m3u8''"
  let ?p2 = "rglob (files w) d ''*.jpg''"
  let ?p3 = "rglob (files w) d ''*.mp4''"
  let ?all = "?p1 @ ?p2 @ ?p3"
  obtain r1 w1 where l1: "upload_loop X s3 b ?base d m3u8_args ?p1 w = (r1, w1)"
    by (cases "upload_loop X s3 b ?base d m3u8_args ?p1 w")
  from step[of w m3u8_args ?p1] l1 obtain e1 where
    f1: "files w1 = files w" and t1: "trace w1 = trace w @ e1"
    and q1: "\<forall>e \<in> set e1. \<exists>m \<in> set ?p1. R m e"
    by auto
  obtain r2 w2 where l2: "upload_loop X s3 b ?base d jpg_args ?p2 w1 = (r2, w2)"
    by (cases "upload_loop X s3 b ?base d jpg_args ?p2 w1")
  from step[of w1 jpg_args ?p2] l2 f1 obtain e2 where
    f2: "files w2 = files w" and t2: "trace w2 = trace w1 @ e2"
    and q2: "\<forall>e \<in> set e2. \<exists>m \<in> set ?p2. R m e"
    by auto
  obtain r3 w3 where l3: "upload_loop X s3 b ?base d mp4_args ?p3 w2 = (r3, w3)"
    by (cases "upload_loop X s3 b ?base d mp4_args ?p3 w2")
  from step[of w2 mp4_args ?p3] l3 f2 obtain e3 where
    f3: "files w3 = files w" and t3: "trace w3 = trace w2 @ e3"
    and q3: "\<forall>e \<in> set e3. \<exists>m \<in> set ?p3. R m e"
    by auto
  have a1: "\<forall>e \<in> set e1. \<exists>m \<in> set ?all. R m e"
    using q1 by fastforce
  have a2: "\<forall>e \<in> set (e1 @ e2). \<exists>m \<in> set ?all. R m e"
    using q1 q2 by fastforce
  have a3: "\<forall>e \<in> set (e1 @ e2 @ e3). \<exists>m \<in> set ?all. R m e"
    using q1 q2 q3 by fastforce
  have tt: "trace w2 = trace w @ (e1 @ e2)" "trace w3 = trace w @ (e1 @ e2 @ e3)"
    using t1 t2 t3 by simp_all
  have goal: "files v = files w \<and> (\<exists>evs. trace v = trace w @ evs \<and>
       (\<forall>e \<in> set evs. \<exists>m \<in> set ?all. R m e))"
    if "v = w1 \<or> v = w2 \<or> v = w3" for v
    using that f1 f2 f3 t1 tt a1 a2 a3 by blast
  have "snd (upload_to_aws X s3 b r d w) = w1 \<or> snd (upload_to_aws X s3 b r d w) = w2 \<or>
        snd (upload_to_aws X s3 b r d w) = w3"
    using l1 l2 l3 f1 f2
    by (simp add: upload_to_aws_def Let_def split: sum.splits)
  from goal[OF this] show ?thesis unfolding R_def .
qed

section \<open>The sequence of steps in main\<close>

lemma main_unfold:
  "main X environ argv s =
     (if length argv < 2
      then (Inr (), print ''Usage: <FILENAME>.py path/to/file.mp4'' (started X environ s))
      else
        (case open_rb (argv ! 1) (started X environ s) of
           (Inl e, w3) \<Rightarrow> (Inl e, w3)
         | (Inr f, w3) \<Rightarrow>
             if \<not> verify_mp4_integrity X f then (Inr (), print ''Corrupt MP4'' w3)
             else
               (case convert_mp4_to_hsl X (argv ! 1) w3 of
                  (Inl e, w4) \<Rightarrow> (Inl e, w4)
                | (Inr path_to_fmp4, w4) \<Rightarrow>
                    (case compress_fmp4 X path_to_fmp4 w4 of
                       (Inl e, w5) \<Rightarrow> (Inl e, w5)
                     | (Inr u, w5) \<Rightarrow>
                         (case upload_to_aws X (main_s3 X environ) BUCKET_NAME REGION_NAME
                                 path_to_fmp4 w5 of
                            (Inl e, w6) \<Rightarrow> (Inl e, w6)
                          | (Inr url, w6) \<Rightarrow> remove_fmp4 path_to_fmp4 (print url w6))))))"
  by (simp add: main_def load_dotenv_def boto3_client_def log_def main_s3_def started_def
      Let_def split: prod.splits sum.splits)

lemma stdout_started: "stdout (started X environ s) = []"
  by (simp add: started_def stdout_def)

lemma stdout_print: "stdout (print s w) = stdout w @ [s]"
  by (simp add: stdout_def print_def log_def)

lemma stdout_append:
  "trace w' = trace w @ evs \<Longrightarrow> \<forall>e \<in> set evs. \<forall>s. e \<noteq> Print s \<Longrightarrow> stdout w' = stdout w"
proof -
  assume t: "trace w' = trace w @ evs" and n: "\<forall>e \<in> set evs. \<forall>s. e \<noteq> Print s"
  have "concat (map (\<lambda>e. case e of Print s \<Rightarrow> [s] | _ \<Rightarrow> []) evs) = []"
    using n by (induction evs) (auto split: event.splits)
  then show ?thesis using t by (simp add: stdout_def)
qed

lemma stdout_log: "(\<And>s. e \<noteq> Print s) \<Longrightarrow> stdout (log e w) = stdout w"
  by (cases e) (auto simp: stdout_def log_def)

lemma open_rb_stdout: "stdout (snd (open_rb p w)) = stdout w"
  by (simp add: open_rb_world stdout_log)

lemma convert_mp4_to_hsl_stdout: "stdout (snd (convert_mp4_to_hsl X p w)) = stdout w"
proof -
  let ?args = "[''video2hls/video2hls'', ''--debug'', ''--output'',
                fst (os_path_splitext p) @ ''.fmp4'', ''--hls-type'', ''fmp4'', p]"
  obtain r1 w1 where s: "subprocess_run X ?args w = (r1, w1)"
    by (cases "subprocess_run X ?args w")
  then have t1: "trace w1 = trace w @ [Subprocess_run ?args]"
    using subprocess_run_trace[of X ?args w] by simp
  then have s1: "stdout w1 = stdout w"
    by (simp add: stdout_def)
  obtain r2 w2 where r: "os_remove p w1 = (r2, w2)"
    by (cases "os_remove p w1")
  then have "trace w2 = trace w1 @ [Os_remove p]"
    using os_remove_trace[of p w1] by simp
  then have s2: "stdout w2 = stdout w"
    using s1 by (simp add: stdout_def)
  have "snd (convert_mp4_to_hsl X p w) = w1 \<or> snd (convert_mp4_to_hsl X p w) = w2"
    using s r by (simp add: convert_mp4_to_hsl_def Let_def split: sum.splits)
  then show ?thesis using s1 s2 by auto
qed

lemma convert_mp4_to_hsl_Inr:
  "convert_mp4_to_hsl X p w = (Inr d, w') \<Longrightarrow> d = fst (os_path_splitext p) @ ''.fmp4''"
  by (auto simp: convert_mp4_to_hsl_def Let_def split: prod.splits sum.splits)

lemma compress_fmp4_stdout:
  "stdout (snd (compress_fmp4 X d w)) =
     (case fst (compress_fmp4 X d w) of
        Inl e \<Rightarrow> stdout w
      | Inr u \<Rightarrow> stdout w @ [''Compressed all files with gzip''])"
proof -
  let ?ps = "rglob (files w) d ''*.m3u8''"
  obtain r w1 where l: "compress_loop X d ?ps w = (r, w1)"
    by (cases "compress_loop X d ?ps w")
  from compress_loop_calls[of X d ?ps w] l obtain evs where
    "trace w1 = trace w @ evs" "\<forall>e \<in> set evs. \<forall>s. e \<noteq> Print s"
    by fastforce
  then have "stdout w1 = stdout w" by (rule stdout_append)
  then show ?thesis using l
    by (cases r) (simp_all add: compress_fmp4_def stdout_print)
qed

lemma upload_to_aws_stdout: "stdout (snd (upload_to_aws X s3 b r d w)) = stdout w"
proof -
  from upload_to_aws_calls[of X s3 b r d w] obtain evs where
    "trace (snd (upload_to_aws X s3 b r d w)) = trace w @ evs"
    "\<forall>e \<in> set evs. \<forall>s. e \<noteq> Print s"
    by fastforce
  then show ?thesis by (rule stdout_append)
qed

lemma upload_to_aws_Inr:
  "upload_to_aws X s3 b r d w = (Inr url, w') \<Longrightarrow> url = get_object_url b r (os_path_basename d)"
  by (auto simp: upload_to_aws_def Let_def split: prod.splits sum.splits)

lemma files_started: "files (started X environ s) = s"
  by (simp add: started_def)

lemma open_rb_started:
  "lookup s (parts p) = Some (File f) \<Longrightarrow>
   open_rb p (started X environ s) = (Inr f, log (Open_rb p) (started X environ s))"
  by (rule open_rb_File) (simp add: files_started)

section \<open>A corrupt input\<close>

text \<open>
  C6. When the file named on the command line fails the integrity check, \<^verbatim>\<open>main\<close>
  returns with the file store exactly as it was (the source file is still there), and
  the only calls it has made are: loading the environment, constructing the client,
  opening the input for reading, and printing \<^verbatim>\<open>Corrupt MP4\<close>. The segmenter is not
  run, nothing is removed or written, and nothing is uploaded.
\<close>

theorem corrupt_input_aborts_before_segmenter:
  assumes "2 \<le> length argv"
    and "lookup s (parts (argv ! 1)) = Some (File f)"
    and "\<not> integv_verify X f"
  shows "main X environ argv s =
           (Inr (), \<lparr>files = s,
                     trace = [Load_dotenv, Boto3_client (main_s3 X environ),
                              Open_rb (argv ! 1), Print ''Corrupt MP4'']\<rparr>)"
proof -
  have o: "open_rb (argv ! 1) (started X environ s) =
             (Inr f, log (Open_rb (argv ! 1)) (started X environ s))"
    using assms(2) by (rule open_rb_started)
  have "main X environ argv s =
          (Inr (), print ''Corrupt MP4'' (log (Open_rb (argv ! 1)) (started X environ s)))"
    using assms(1,3) by (simp add: main_unfold o verify_mp4_integrity_def del: One_nat_def)
  then show ?thesis
    by (simp add: print_def log_def started_def)
qed

theorem corrupt_input_aborts_before_segmenter_witness:
  "2 \<le> length [''media.py'', ''broken.mp4'']
   \<and> lookup corrupt_store (parts ([''media.py'', ''broken.mp4''] ! 1)) = Some (File [])
   \<and> \<not> integv_verify demo_externals []
   \<and> main demo_externals Map.empty [''media.py'', ''broken.mp4''] corrupt_store =
       (Inr (), \<lparr>files = corrupt_store,
                 trace = [Load_dotenv, Boto3_client (main_s3 demo_externals Map.empty),
                          Open_rb ''broken.mp4'', Print ''Corrupt MP4'']\<rparr>)"
proof -
  have a: "2 \<le> length [''media.py'', ''broken.mp4'']"
    by simp
  have b: "lookup corrupt_store (parts ([''media.py'', ''broken.mp4''] ! 1)) = Some (File [])"
    by (simp add: corrupt_store_def lookup_def parts_def)
  have c: "\<not> integv_verify demo_externals []"
    by (simp add: demo_externals_def)
  from corrupt_input_aborts_before_segmenter[OF a b c, of Map.empty] a b c
  show ?thesis by simp
qed

section \<open>What the command line prints\<close>

text \<open>
  C8, as the code has it. \<^verbatim>\<open>load_dotenv()\<close> and the construction of the client come
  before the test of the arguments, so a run with no path argument does read the
  \<^verbatim>\<open>.env\<close> file. What holds is: with no path argument, \<^verbatim>\<open>main\<close> makes exactly these
  two calls, prints the usage line and returns; the file store is unchanged, and no
  input is opened, no process is run, nothing is removed, written or uploaded. When the
  integrity check fails it prints \<^verbatim>\<open>Corrupt MP4\<close>, and nothing else, and returns. When
  the run completes, the last line printed is the published URL.
\<close>

theorem cli_output:
  "(length argv < 2 \<longrightarrow>
      main X environ argv s =
        (Inr (), \<lparr>files = s,
                  trace = [Load_dotenv, Boto3_client (main_s3 X environ),
                           Print ''Usage: <FILENAME>.py path/to/file.mp4'']\<rparr>))
   \<and> (2 \<le> length argv \<and> lookup s (parts (argv ! 1)) = Some (File f) \<and> \<not> integv_verify X f \<longrightarrow>
        fst (main X environ argv s) = Inr () \<and>
        stdout (snd (main X environ argv s)) = [''Corrupt MP4''])
   \<and> (2 \<le> length argv \<and> lookup s (parts (argv ! 1)) = Some (File f) \<and> integv_verify X f \<and>
        main X environ argv s = (Inr (), w') \<longrightarrow>
        stdout w' =
          [''Compressed all files with gzip'',
           get_object_url BUCKET_NAME REGION_NAME
             (os_path_basename (fst (os_path_splitext (argv ! 1)) @ ''.fmp4''))])"
    (is "?A \<and> ?B \<and> ?C")
proof -
  have A: ?A
    by (simp add: main_unfold print_def log_def started_def)
  have B: ?B
  proof (intro impI, elim conjE)
    assume h: "2 \<le> length argv" "lookup s (parts (argv ! 1)) = Some (File f)"
      "\<not> integv_verify X f"
    have o: "open_rb (argv ! 1) (started X environ s) =
               (Inr f, log (Open_rb (argv ! 1)) (started X environ s))"
      using h(2) by (rule open_rb_started)
    have "main X environ argv s =
            (Inr (), print ''Corrupt MP4'' (log (Open_rb (argv ! 1)) (started X environ s)))"
      using h(1,3) by (simp add: main_unfold o verify_mp4_integrity_def del: One_nat_def)
    then show "fst (main X environ argv s) = Inr () \<and>
        stdout (snd (main X environ argv s)) = [''Corrupt MP4'']"
      by (simp add: stdout_print stdout_log stdout_started)
  qed
  have C: ?C
  proof (intro impI, elim conjE)
    let ?p = "argv ! 1"
    let ?w3 = "log (Open_rb ?p) (started X environ s)"
    assume h: "2 \<le> length argv" "lookup s (parts ?p) = Some (File f)" "integv_verify X f"
      and m: "main X environ argv s = (Inr (), w')"
    have o: "open_rb ?p (started X environ s) = (Inr f, ?w3)"
      using h(2) by (rule open_rb_started)
    obtain r4 w4 where c4: "convert_mp4_to_hsl X ?p ?w3 = (r4, w4)"
      by (cases "convert_mp4_to_hsl X ?p ?w3")
    from m h(1,3) o c4 obtain d where r4: "r4 = Inr d"
      by (cases r4) (simp_all add: main_unfold verify_mp4_integrity_def del: One_nat_def)
    obtain r5 w5 where c5: "compress_fmp4 X d w4 = (r5, w5)"
      by (cases "compress_fmp4 X d w4")
    from m h(1,3) o c4 r4 c5 have r5: "r5 = Inr ()"
      by (cases r5) (simp_all add: main_unfold verify_mp4_integrity_def del: One_nat_def)
    obtain r6 w6 where c6: "upload_to_aws X (main_s3 X environ) BUCKET_NAME REGION_NAME d w5 = (r6, w6)"
      by (cases "upload_to_aws X (main_s3 X environ) BUCKET_NAME REGION_NAME d w5")
    from m h(1,3) o c4 r4 c5 r5 c6 obtain url where r6: "r6 = Inr url"
      by (cases r6) (simp_all add: main_unfold verify_mp4_integrity_def del: One_nat_def)
    from m h(1,3) o c4 r4 c5 r5 c6 r6
    have rm: "remove_fmp4 d (print url w6) = (Inr (), w')"
      by (simp add: main_unfold verify_mp4_integrity_def del: One_nat_def)
    have d: "d = fst (os_path_splitext ?p) @ ''.fmp4''"
      using c4 r4 convert_mp4_to_hsl_Inr by blast
    have url: "url = get_object_url BUCKET_NAME REGION_NAME (os_path_basename d)"
      using c6 r6 upload_to_aws_Inr by blast
    have s3: "stdout ?w3 = []"
      by (simp add: stdout_log stdout_started)
    have s4: "stdout w4 = []"
      using convert_mp4_to_hsl_stdout[of X ?p ?w3] c4 s3 by simp
    have s5: "stdout w5 = [''Compressed all files with gzip'']"
      using compress_fmp4_stdout[of X d w4] c5 r5 s4 by simp
    have s6: "stdout w6 = [''Compressed all files with gzip'']"
      using upload_to_aws_stdout[of X "main_s3 X environ" BUCKET_NAME REGION_NAME d w5] c6 s5
      by simp
    have "trace w' = trace (print url w6) @ [Rmtree d]"
      using shutil_rmtree_trace[of d "print url w6"] rm by (simp add: remove_fmp4_def)
    then have "stdout w' = stdout (print url w6)"
      by (simp add: stdout_def)
    then have "stdout w' = [''Compressed all files with gzip'', url]"
      using s6 by (simp add: stdout_print)
    then show "stdout w' =
          [''Compressed all files with gzip'',
           get_object_url BUCKET_NAME REGION_NAME
             (os_path_basename (fst (os_path_splitext (argv ! 1)) @ ''.fmp4''))]"
      unfolding url d .
  qed
  show ?thesis by (rule conjI[OF A conjI[OF B C]])
qed

lemmas demo_defs =
  demo_externals_def demo_gzip_def demo_output_def demo_store_def demo_client_def
  failing_segmenter_def refusing_storage_def missing_segmenter_def dotenv_externals_def
  corrupt_store_def
  nested_output_def nested_only_output_def

lemmas main_defs =
  main_def main_s3_def started_def REGION_NAME_def BUCKET_NAME_def stdout_def str_def
  strip_def isspace_def

theorem cli_output_witness:
  "main demo_externals Map.empty [''media.py''] demo_store =
     (Inr (), \<lparr>files = demo_store,
               trace = [Load_dotenv, Boto3_client (main_s3 demo_externals Map.empty),
                        Print ''Usage: <FILENAME>.py path/to/file.mp4'']\<rparr>)
   \<and> stdout (snd (main demo_externals Map.empty [''media.py'', ''broken.mp4''] corrupt_store)) =
       [''Corrupt MP4'']
   \<and> fst (main demo_externals Map.empty [''media.py'', ''clip.mp4''] demo_store) = Inr ()
   \<and> stdout (snd (main demo_externals Map.empty [''media.py'', ''clip.mp4''] demo_store)) =
       [''Compressed all files with gzip'',
        ''https://appdev-backend-final.s3.us-east-2.amazonaws.com/hls/clip.fmp4/index.m3u8'']"
proof -
  define X where "X = demo_externals"
  define a1 where "a1 = [''media.py'']"
  define a2 where "a2 = [''media.py'', ''broken.mp4'']"
  define a3 where "a3 = [''media.py'', ''clip.mp4'']"
  define env where "env = (Map.empty :: string \<rightharpoonup> string)"
  have l1: "length a1 < 2"
    by (simp add: a1_def)
  have A: "main X env a1 demo_store =
     (Inr (), \<lparr>files = demo_store,
               trace = [Load_dotenv, Boto3_client (main_s3 X env),
                        Print ''Usage: <FILENAME>.py path/to/file.mp4'']\<rparr>)"
    by (rule cli_output[THEN conjunct1, THEN mp, OF l1])
  have l2: "2 \<le> length a2 \<and> lookup corrupt_store (parts (a2 ! 1)) = Some (File []) \<and>
            \<not> integv_verify X []"
    by (simp add: a2_def X_def corrupt_store_def lookup_def parts_def demo_externals_def)
  have B: "stdout (snd (main X env a2 corrupt_store)) = [''Corrupt MP4'']"
    by (rule cli_output[THEN conjunct2, THEN conjunct1, THEN mp, OF l2, THEN conjunct2])
  have ok: "fst (main X env a3 demo_store) = Inr ()"
    by (simp add: X_def env_def a3_def main_defs program_defs op_defs path_defs demo_defs Let_def)
  then have run: "main X env a3 demo_store = (Inr (), snd (main X env a3 demo_store))"
    by (metis prod.collapse)
  have pre: "2 \<le> length a3 \<and> lookup demo_store (parts (a3 ! 1)) = Some (File [0, 0, 0, 24]) \<and>
            integv_verify X [0, 0, 0, 24]"
    by (simp add: a3_def X_def demo_store_def lookup_def parts_def demo_externals_def)
  have l3: "2 \<le> length a3 \<and> lookup demo_store (parts (a3 ! 1)) = Some (File [0, 0, 0, 24]) \<and>
            integv_verify X [0, 0, 0, 24] \<and>
            main X env a3 demo_store = (Inr (), snd (main X env a3 demo_store))"
    using pre run by (intro conjI) simp_all
  have "stdout (snd (main X env a3 demo_store)) =
          [''Compressed all files with gzip'',
           get_object_url BUCKET_NAME REGION_NAME
             (os_path_basename (fst (os_path_splitext (a3 ! 1)) @ ''.fmp4''))]"
    by (rule cli_output[THEN conjunct2, THEN conjunct2, THEN mp, OF l3])
  moreover have "get_object_url BUCKET_NAME REGION_NAME
             (os_path_basename (fst (os_path_splitext (a3 ! 1)) @ ''.fmp4'')) =
          ''https://appdev-backend-final.s3.us-east-2.amazonaws.com/hls/clip.fmp4/index.m3u8''"
    by (simp add: a3_def get_object_url_def BUCKET_NAME_def REGION_NAME_def path_defs Let_def)
  ultimately have C: "stdout (snd (main X env a3 demo_store)) =
          [''Compressed all files with gzip'',
           ''https://appdev-backend-final.s3.us-east-2.amazonaws.com/hls/clip.fmp4/index.m3u8'']"
    by (rule trans[OF _ arg_cong[where f="\<lambda>u. [''Compressed all files with gzip'', u]"]])
  show ?thesis
    using A B ok C unfolding X_def a1_def a2_def a3_def env_def by (intro conjI)
qed

text \<open>
  Two runs with no path argument, on the same file store, with and without a variable in
  the \<^verbatim>\<open>.env\<close> file: both call \<^verbatim>\<open>load_dotenv\<close> before they print the usage line,
  and the client they construct differs, so the \<^verbatim>\<open>.env\<close> file has been read.
\<close>

theorem usage_run_reads_dotenv:
  "main demo_externals Map.empty [''media.py''] demo_store =
     (Inr (),
      \<lparr>files = demo_store,
       trace = [Load_dotenv,
                Boto3_client
                  \<lparr>region_name = ''us-east-2'',
                   endpoint_url = ''https://s3.us-east-2.amazonaws.com'',
                   aws_access_key_id = ''None'', aws_secret_access_key = ''None'',
                   signature_version = ''s3v4''\<rparr>,
                Print ''Usage: <FILENAME>.py path/to/file.mp4'']\<rparr>)
   \<and> main dotenv_externals Map.empty [''media.py''] demo_store =
     (Inr (),
      \<lparr>files = demo_store,
       trace = [Load_dotenv,
                Boto3_client
                  \<lparr>region_name = ''us-east-2'',
                   endpoint_url = ''https://s3.us-east-2.amazonaws.com'',
                   aws_access_key_id = ''AKIA1'', aws_secret_access_key = ''None'',
                   signature_version = ''s3v4''\<rparr>,
                Print ''Usage: <FILENAME>.py path/to/file.mp4'']\<rparr>)
   \<and> main dotenv_externals Map.empty [''media.py''] demo_store \<noteq>
       main demo_externals Map.empty [''media.py''] demo_store"
  by (simp add: main_def load_dotenv_def boto3_client_def log_def print_def REGION_NAME_def
      str_def strip_def isspace_def demo_defs Let_def)

section \<open>Removal of the source file\<close>

lemma lookup_delete:
  "k \<noteq> [] \<Longrightarrow> lookup (AList.delete k s) q = (if q = k then None else lookup s q)"
  by (auto simp: lookup_def delete_conv)

lemma lookup_File_not_root: "lookup s k = Some (File f) \<Longrightarrow> k \<noteq> []"
  by (auto simp: lookup_def)

text \<open>
  C1, as the code has it. \<^verbatim>\<open>convert_mp4_to_hsl\<close> does not look at the exit status:
  once the segmenter process has run and exited, with any status, the source file is
  removed (if the process left it in place) and the path of the output directory is
  returned. The source is kept when the process cannot be started, since
  \<^verbatim>\<open>subprocess.run\<close> then raises before \<^verbatim>\<open>os.remove\<close> is reached.
\<close>

theorem source_removed_whatever_the_exit_status:
  "(run_command X [''video2hls/video2hls'', ''--debug'', ''--output'',
                   fst (os_path_splitext p) @ ''.fmp4'', ''--hls-type'', ''fmp4'', p] (files w)
      = Exited code s' \<and> lookup s' (parts p) = Some (File f) \<longrightarrow>
      (\<exists>w'. convert_mp4_to_hsl X p w = (Inr (fst (os_path_splitext p) @ ''.fmp4''), w') \<and>
            lookup (files w') (parts p) = None \<and>
            (\<forall>q. q \<noteq> parts p \<longrightarrow> lookup (files w') q = lookup s' q)))
   \<and> (run_command X [''video2hls/video2hls'', ''--debug'', ''--output'',
                   fst (os_path_splitext p) @ ''.fmp4'', ''--hls-type'', ''fmp4'', p] (files w)
      = Cannot_start \<longrightarrow>
      (\<exists>w'. convert_mp4_to_hsl X p w = (Inl SubprocessOSError, w') \<and> files w' = files w))"
    (is "?A \<and> ?B")
proof -
  let ?args = "[''video2hls/video2hls'', ''--debug'', ''--output'',
                fst (os_path_splitext p) @ ''.fmp4'', ''--hls-type'', ''fmp4'', p]"
  have A: ?A
  proof (intro impI, elim conjE)
    assume r: "run_command X ?args (files w) = Exited code s'"
      and l: "lookup s' (parts p) = Some (File f)"
    let ?w1 = "(log (Subprocess_run ?args) w)\<lparr>files := s'\<rparr>"
    have s: "subprocess_run X ?args w = (Inr code, ?w1)"
      using r by (simp add: subprocess_run_def Let_def)
    let ?w2 = "(log (Os_remove p) ?w1)\<lparr>files := AList.delete (parts p) s'\<rparr>"
    have rm: "os_remove p ?w1 = (Inr (), ?w2)"
      using l by (simp add: os_remove_def Let_def log_def)
    have c: "convert_mp4_to_hsl X p w = (Inr (fst (os_path_splitext p) @ ''.fmp4''), ?w2)"
      by (simp add: convert_mp4_to_hsl_def Let_def s rm)
    have k: "parts p \<noteq> []"
      using l by (rule lookup_File_not_root)
    have f: "files ?w2 = AList.delete (parts p) s'"
      by simp
    show "\<exists>w'. convert_mp4_to_hsl X p w = (Inr (fst (os_path_splitext p) @ ''.fmp4''), w') \<and>
            lookup (files w') (parts p) = None \<and>
            (\<forall>q. q \<noteq> parts p \<longrightarrow> lookup (files w') q = lookup s' q)"
      by (rule exI[of _ ?w2]) (simp add: c f lookup_delete[OF k])
  qed
  have B: ?B
  proof
    assume r: "run_command X ?args (files w) = Cannot_start"
    have "convert_mp4_to_hsl X p w = (Inl SubprocessOSError, log (Subprocess_run ?args) w)"
      using r by (simp add: convert_mp4_to_hsl_def subprocess_run_def Let_def)
    then show "\<exists>w'. convert_mp4_to_hsl X p w = (Inl SubprocessOSError, w') \<and> files w' = files w"
      by (simp add: files_log)
  qed
  show ?thesis by (rule conjI[OF A B])
qed

theorem source_removed_on_failed_segmentation:
  "run_command failing_segmenter
     [''video2hls/video2hls'', ''--debug'', ''--output'', ''clip.fmp4'', ''--hls-type'', ''fmp4'',
      ''clip.mp4''] demo_store = Exited 1 demo_store
   \<and> lookup demo_store [''clip.mp4''] = Some (File [0, 0, 0, 24])
   \<and> convert_mp4_to_hsl failing_segmenter ''clip.mp4'' \<lparr>files = demo_store, trace = []\<rparr> =
       (Inr ''clip.fmp4'',
        \<lparr>files = [],
         trace = [Subprocess_run [''video2hls/video2hls'', ''--debug'', ''--output'',
                    ''clip.fmp4'', ''--hls-type'', ''fmp4'', ''clip.mp4''],
                  Os_remove ''clip.mp4'']\<rparr>)"
  by (simp add: program_defs op_defs path_defs demo_defs Let_def)

theorem source_removed_whatever_the_exit_status_witness:
  "lookup (files (snd (convert_mp4_to_hsl failing_segmenter ''clip.mp4''
                         \<lparr>files = demo_store, trace = []\<rparr>))) [''clip.mp4''] = None
   \<and> fst (convert_mp4_to_hsl failing_segmenter ''clip.mp4''
            \<lparr>files = demo_store, trace = []\<rparr>) = Inr ''clip.fmp4''
   \<and> fst (convert_mp4_to_hsl missing_segmenter ''clip.mp4''
            \<lparr>files = demo_store, trace = []\<rparr>) = Inl SubprocessOSError
   \<and> files (snd (convert_mp4_to_hsl missing_segmenter ''clip.mp4''
                    \<lparr>files = demo_store, trace = []\<rparr>)) = demo_store"
proof -
  define p where "p = ''clip.mp4''"
  define w where "w = \<lparr>files = demo_store, trace = []\<rparr>"
  define X where "X = failing_segmenter"
  define Y where "Y = missing_segmenter"
  have sx: "fst (os_path_splitext p) @ ''.fmp4'' = ''clip.fmp4''"
    by (simp add: p_def path_defs Let_def)
  have pp: "parts p = [''clip.mp4'']"
    by (simp add: p_def parts_def)
  have h1: "run_command X [''video2hls/video2hls'', ''--debug'', ''--output'',
                   fst (os_path_splitext p) @ ''.fmp4'', ''--hls-type'', ''fmp4'', p] (files w)
      = Exited 1 demo_store \<and> lookup demo_store (parts p) = Some (File [0, 0, 0, 24])"
    by (simp add: X_def w_def pp demo_defs lookup_def)
  from source_removed_whatever_the_exit_status[THEN conjunct1, THEN mp, OF h1]
  obtain w' where a: "convert_mp4_to_hsl X p w = (Inr (fst (os_path_splitext p) @ ''.fmp4''), w')"
    and b: "lookup (files w') (parts p) = None"
    by blast
  have r1: "lookup (files (snd (convert_mp4_to_hsl X p w))) [''clip.mp4''] = None"
    using a b pp by simp
  have r2: "fst (convert_mp4_to_hsl X p w) = Inr ''clip.fmp4''"
    using a sx by simp
  have h2: "run_command Y [''video2hls/video2hls'', ''--debug'', ''--output'',
                   fst (os_path_splitext p) @ ''.fmp4'', ''--hls-type'', ''fmp4'', p] (files w)
      = Cannot_start"
    by (simp add: Y_def demo_defs)
  from source_removed_whatever_the_exit_status[THEN conjunct2, THEN mp, OF h2]
  obtain w'' where c: "convert_mp4_to_hsl Y p w = (Inl SubprocessOSError, w'')"
    and d: "files w'' = files w"
    by blast
  have r3: "fst (convert_mp4_to_hsl Y p w) = Inl SubprocessOSError"
    using c by simp
  have r4: "files (snd (convert_mp4_to_hsl Y p w)) = demo_store"
    using c d by (simp add: w_def)
  show ?thesis
    using r1 r2 r3 r4 unfolding p_def w_def X_def Y_def by (intro conjI)
qed

section \<open>A failure stops the steps that follow\<close>

text \<open>
  C7, as the code has it. Every step of \<^verbatim>\<open>main\<close> that raises ends the run in the world
  of that moment: nothing after it is called and the URL is not printed. This holds when
  the input cannot be opened, when the integrity check fails, when the segmenter cannot
  be started or the source cannot be removed, when \<^verbatim>\<open>compress_fmp4\<close> raises and when
  \<^verbatim>\<open>upload_to_aws\<close> raises. The URL is printed only after \<^verbatim>\<open>upload_to_aws\<close> has
  returned. The exit status of the segmenter is not among the failures.
\<close>

theorem failure_stops_later_steps:
  assumes "2 \<le> length argv"
    and "d = fst (os_path_splitext (argv ! 1)) @ ''.fmp4''"
    and "open_rb (argv ! 1) (started X environ s) = (r3, w3)"
    and "convert_mp4_to_hsl X (argv ! 1) w3 = (r4, w4)"
    and "compress_fmp4 X d w4 = (r5, w5)"
    and "upload_to_aws X (main_s3 X environ) BUCKET_NAME REGION_NAME d w5 = (r6, w6)"
  shows
    "(r3 = Inl e \<longrightarrow> main X environ argv s = (Inl e, w3) \<and> stdout w3 = [])
     \<and> (r3 = Inr f \<and> \<not> integv_verify X f \<longrightarrow>
          main X environ argv s = (Inr (), print ''Corrupt MP4'' w3) \<and>
          trace (print ''Corrupt MP4'' w3) =
            [Load_dotenv, Boto3_client (main_s3 X environ), Open_rb (argv ! 1),
             Print ''Corrupt MP4''])
     \<and> (r3 = Inr f \<and> integv_verify X f \<and> r4 = Inl e \<longrightarrow>
          main X environ argv s = (Inl e, w4) \<and> stdout w4 = [])
     \<and> (r3 = Inr f \<and> integv_verify X f \<and> r4 = Inr d' \<and> r5 = Inl e \<longrightarrow>
          main X environ argv s = (Inl e, w5) \<and> stdout w5 = [])
     \<and> (r3 = Inr f \<and> integv_verify X f \<and> r4 = Inr d' \<and> r5 = Inr () \<and> r6 = Inl e \<longrightarrow>
          main X environ argv s = (Inl e, w6) \<and>
          stdout w6 = [''Compressed all files with gzip''])
     \<and> (r3 = Inr f \<and> integv_verify X f \<and> r4 = Inr d' \<and> r5 = Inr () \<and> r6 = Inr url \<longrightarrow>
          main X environ argv s = remove_fmp4 d (print url w6) \<and>
          stdout (print url w6) = [''Compressed all files with gzip'', url])"
    (is "?P1 \<and> ?P2 \<and> ?P3 \<and> ?P4 \<and> ?P5 \<and> ?P6")
proof -
  let ?p = "argv ! 1"
  note o = assms(3) and c4 = assms(4) and c5 = assms(5) and c6 = assms(6)
  have w3: "w3 = log (Open_rb ?p) (started X environ s)"
    using open_rb_world[of ?p "started X environ s"] o by simp
  have s3: "stdout w3 = []"
    by (simp add: w3 stdout_log stdout_started)
  have t3: "trace w3 = [Load_dotenv, Boto3_client (main_s3 X environ), Open_rb ?p]"
    by (simp add: w3 log_def started_def)
  have s4: "stdout w4 = []"
    using convert_mp4_to_hsl_stdout[of X ?p w3] c4 s3 by simp
  have dd: "d' = d" if "r4 = Inr d'" for d'
    using convert_mp4_to_hsl_Inr[of X ?p w3 d' w4] c4 that assms(2) by simp
  have s5: "stdout w5 = (case r5 of Inl e \<Rightarrow> [] | Inr u \<Rightarrow> [''Compressed all files with gzip''])"
    using compress_fmp4_stdout[of X d w4] c5 s4 by (simp split: sum.splits)
  have s6: "stdout w6 = stdout w5"
    using upload_to_aws_stdout[of X "main_s3 X environ" BUCKET_NAME REGION_NAME d w5] c6
    by simp
  have P1: ?P1
    using assms(1) o s3 by (simp add: main_unfold del: One_nat_def)
  have P2: ?P2
    using assms(1) o t3
    by (simp add: main_unfold verify_mp4_integrity_def print_def log_def del: One_nat_def)
  have P3: ?P3
    using assms(1) o c4 s4
    by (simp add: main_unfold verify_mp4_integrity_def del: One_nat_def)
  have P4: ?P4
  proof (intro impI, elim conjE)
    assume h: "r3 = Inr f" "integv_verify X f" "r4 = Inr d'" "r5 = Inl e"
    have "main X environ argv s = (Inl e, w5)"
      using assms(1) o c4 c5 h dd[OF h(3)]
      by (simp add: main_unfold verify_mp4_integrity_def del: One_nat_def)
    moreover have "stdout w5 = []"
      using s5 h(4) by simp
    ultimately show "main X environ argv s = (Inl e, w5) \<and> stdout w5 = []" by (rule conjI)
  qed
  have P5: ?P5
  proof (intro impI, elim conjE)
    assume h: "r3 = Inr f" "integv_verify X f" "r4 = Inr d'" "r5 = Inr ()" "r6 = Inl e"
    have "main X environ argv s = (Inl e, w6)"
      using assms(1) o c4 c5 c6 h dd[OF h(3)]
      by (simp add: main_unfold verify_mp4_integrity_def del: One_nat_def)
    moreover have "stdout w6 = [''Compressed all files with gzip'']"
      using s5 s6 h(4) by simp
    ultimately show "main X environ argv s = (Inl e, w6) \<and>
        stdout w6 = [''Compressed all files with gzip'']" by (rule conjI)
  qed
  have P6: ?P6
  proof (intro impI, elim conjE)
    assume h: "r3 = Inr f" "integv_verify X f" "r4 = Inr d'" "r5 = Inr ()" "r6 = Inr url"
    have "main X environ argv s = remove_fmp4 d (print url w6)"
      using assms(1) o c4 c5 c6 h dd[OF h(3)]
      by (simp add: main_unfold verify_mp4_integrity_def del: One_nat_def)
    moreover have "stdout (print url w6) = [''Compressed all files with gzip'', url]"
      using s5 s6 h(4) by (simp add: stdout_print)
    ultimately show "main X environ argv s = remove_fmp4 d (print url w6) \<and>
        stdout (print url w6) = [''Compressed all files with gzip'', url]" by (rule conjI)
  qed
  show ?thesis
    by (rule conjI[OF P1 conjI[OF P2 conjI[OF P3 conjI[OF P4 conjI[OF P5 P6]]]]])
qed

text \<open>
  The segmenter exits with status 1 and writes nothing; the run goes on: the source is
  removed, the completion message and the URL are printed, and only the removal of the
  output directory, which does not exist, raises.
\<close>

theorem url_printed_after_failed_segmentation:
  "run_command failing_segmenter
     [''video2hls/video2hls'', ''--debug'', ''--output'', ''clip.fmp4'', ''--hls-type'', ''fmp4'',
      ''clip.mp4''] demo_store = Exited 1 demo_store
   \<and> main failing_segmenter Map.empty [''media.py'', ''clip.mp4''] demo_store =
       (Inl (FileNotFoundError ''clip.fmp4''),
        \<lparr>files = [],
         trace = [Load_dotenv, Boto3_client (main_s3 failing_segmenter Map.empty),
                  Open_rb ''clip.mp4'',
                  Subprocess_run [''video2hls/video2hls'', ''--debug'', ''--output'',
                    ''clip.fmp4'', ''--hls-type'', ''fmp4'', ''clip.mp4''],
                  Os_remove ''clip.mp4'',
                  Print ''Compressed all files with gzip'',
                  Print ''https://appdev-backend-final.s3.us-east-2.amazonaws.com/hls/clip.fmp4/index.m3u8'',
                  Rmtree ''clip.fmp4'']\<rparr>)"
  by (simp add: main_def main_s3_def REGION_NAME_def BUCKET_NAME_def program_defs op_defs
      path_defs demo_defs Let_def)

theorem failure_stops_later_steps_witness:
  "fst (main refusing_storage Map.empty [''media.py'', ''clip.mp4''] demo_store) =
     Inl S3UploadFailedError
   \<and> stdout (snd (main refusing_storage Map.empty [''media.py'', ''clip.mp4''] demo_store)) =
       [''Compressed all files with gzip'']
   \<and> fst (main demo_externals Map.empty [''media.py'', ''broken.mp4''] corrupt_store) = Inr ()"
proof -
  let ?X = refusing_storage
  let ?env = "Map.empty :: string \<rightharpoonup> string"
  let ?a = "[''media.py'', ''clip.mp4'']"
  let ?d = "fst (os_path_splitext (?a ! 1)) @ ''.fmp4''"
  let ?r3 = "open_rb (?a ! 1) (started ?X ?env demo_store)"
  let ?r4 = "convert_mp4_to_hsl ?X (?a ! 1) (snd ?r3)"
  let ?r5 = "compress_fmp4 ?X ?d (snd ?r4)"
  let ?r6 = "upload_to_aws ?X (main_s3 ?X ?env) BUCKET_NAME REGION_NAME ?d (snd ?r5)"
  note ev = main_defs program_defs op_defs path_defs demo_defs Let_def
  have len: "2 \<le> length ?a" by simp
  have e3: "fst ?r3 = Inr [0, 0, 0, 24]"
    by (simp add: ev)
  have v: "integv_verify ?X [0, 0, 0, 24]"
    by (simp add: demo_defs)
  have e4: "fst ?r4 = Inr ''clip.fmp4''"
    by (simp add: ev)
  have e5: "fst ?r5 = Inr ()"
    by (simp add: ev)
  have e6: "fst ?r6 = Inl S3UploadFailedError"
    by (simp add: ev)
  note T = failure_stops_later_steps
             [OF len refl prod.collapse[symmetric] prod.collapse[symmetric]
                 prod.collapse[symmetric] prod.collapse[symmetric],
              of ?X ?env demo_store]
  have pre: "fst ?r3 = Inr [0, 0, 0, 24] \<and> integv_verify ?X [0, 0, 0, 24] \<and>
             fst ?r4 = Inr ''clip.fmp4'' \<and> fst ?r5 = Inr () \<and> fst ?r6 = Inl S3UploadFailedError"
    by (intro conjI e3 v e4 e5 e6)
  have r: "main ?X ?env ?a demo_store = (Inl S3UploadFailedError, snd ?r6) \<and>
           stdout (snd ?r6) = [''Compressed all files with gzip'']"
    by (rule T[THEN conjunct2, THEN conjunct2, THEN conjunct2, THEN conjunct2, THEN conjunct1,
               THEN mp, OF pre])
  let ?Y = demo_externals
  let ?b = "[''media.py'', ''broken.mp4'']"
  let ?q3 = "open_rb (?b ! 1) (started ?Y ?env corrupt_store)"
  have len2: "2 \<le> length ?b" by simp
  note T2 = failure_stops_later_steps
             [OF len2 refl prod.collapse[symmetric] prod.collapse[symmetric]
                 prod.collapse[symmetric] prod.collapse[symmetric],
              of ?Y ?env corrupt_store]
  have pre2: "fst ?q3 = Inr [] \<and> \<not> integv_verify ?Y []"
    by (simp add: ev)
  have r2: "main ?Y ?env ?b corrupt_store = (Inr (), print ''Corrupt MP4'' (snd ?q3))"
    by (rule T2[THEN conjunct2, THEN conjunct1, THEN mp, OF pre2, THEN conjunct1])
  from r r2 show ?thesis by simp
qed

section \<open>Credentials\<close>

lemma takeWhile_all: "list_all P (takeWhile P xs)"
  by (induction xs) auto

lemma strip_decompose:
  "\<exists>l r. v = l @ strip v @ r \<and> list_all isspace l \<and> list_all isspace r"
proof -
  let ?u = "dropWhile isspace v"
  have "rev (takeWhile isspace (rev ?u) @ dropWhile isspace (rev ?u)) =
          rev (dropWhile isspace (rev ?u)) @ rev (takeWhile isspace (rev ?u))"
    by (rule rev_append)
  moreover have "takeWhile isspace (rev ?u) @ dropWhile isspace (rev ?u) = rev ?u"
    by (rule takeWhile_dropWhile_id)
  ultimately have "rev (rev ?u) =
          rev (dropWhile isspace (rev ?u)) @ rev (takeWhile isspace (rev ?u))"
    by (simp only:)
  then have u: "?u = strip v @ rev (takeWhile isspace (rev ?u))"
    by (simp only: rev_rev_ident strip_def)
  have a: "v = takeWhile isspace v @ ?u"
    by simp
  have "takeWhile isspace v @ ?u =
          takeWhile isspace v @ strip v @ rev (takeWhile isspace (rev ?u))"
    using u by (rule arg_cong)
  with a have "v = takeWhile isspace v @ strip v @ rev (takeWhile isspace (rev ?u))"
    by (rule trans)
  moreover have "list_all isspace (takeWhile isspace v)"
    by (rule takeWhile_all)
  moreover have "list_all isspace (rev (takeWhile isspace (rev ?u)))"
    using takeWhile_all[of isspace "rev ?u"] by (simp add: list_all_iff)
  ultimately show ?thesis by blast
qed

lemma last_dropWhile: "dropWhile P xs \<noteq> [] \<Longrightarrow> last (dropWhile P xs) = last xs"
  by (induction xs) (auto split: if_splits)

lemma strip_ends:
  assumes "strip v \<noteq> []"
  shows "\<not> isspace (hd (strip v)) \<and> \<not> isspace (last (strip v))"
proof -
  let ?u = "dropWhile isspace v"
  let ?t = "dropWhile isspace (rev ?u)"
  from assms have t: "?t \<noteq> []" by (simp add: strip_def)
  have u: "?u \<noteq> []"
  proof
    assume "?u = []"
    then have "?t = []" by (simp only: rev.simps dropWhile.simps)
    with t show False by (rule notE)
  qed
  have "last (strip v) = hd ?t"
    using t by (simp add: strip_def last_rev)
  moreover have "\<not> isspace (hd ?t)"
    using t by (rule hd_dropWhile)
  moreover have "hd (strip v) = last ?t"
    using t by (simp add: strip_def hd_rev)
  moreover have "last ?t = hd ?u"
    using last_dropWhile[OF t] u by (simp add: last_rev)
  moreover have "\<not> isspace (hd ?u)"
    using u by (rule hd_dropWhile)
  ultimately show ?thesis by simp
qed

section \<open>The trace only grows\<close>

lemma convert_mp4_to_hsl_prefix: "prefix (trace w) (trace (snd (convert_mp4_to_hsl X p w)))"
proof -
  let ?args = "[''video2hls/video2hls'', ''--debug'', ''--output'',
                fst (os_path_splitext p) @ ''.fmp4'', ''--hls-type'', ''fmp4'', p]"
  obtain r1 w1 where s: "subprocess_run X ?args w = (r1, w1)"
    by (cases "subprocess_run X ?args w")
  then have t1: "trace w1 = trace w @ [Subprocess_run ?args]"
    using subprocess_run_trace[of X ?args w] by simp
  obtain r2 w2 where r: "os_remove p w1 = (r2, w2)"
    by (cases "os_remove p w1")
  then have t2: "trace w2 = trace w @ [Subprocess_run ?args, Os_remove p]"
    using os_remove_trace[of p w1] t1 by simp
  have "snd (convert_mp4_to_hsl X p w) = w1 \<or> snd (convert_mp4_to_hsl X p w) = w2"
    using s r by (simp add: convert_mp4_to_hsl_def Let_def split: sum.splits)
  then show ?thesis using t1 t2 by auto
qed

lemma compress_fmp4_prefix: "prefix (trace w) (trace (snd (compress_fmp4 X d w)))"
  using compress_fmp4_calls[of X d w] by (auto simp: prefix_def)

lemma upload_to_aws_prefix: "prefix (trace w) (trace (snd (upload_to_aws X s3 b r d w)))"
proof -
  from upload_to_aws_calls[of X s3 b r d w]
  have "\<exists>evs. trace (snd (upload_to_aws X s3 b r d w)) = trace w @ evs"
    by (elim conjE exE) (rule exI)
  then show ?thesis by (auto simp: prefix_def)
qed

lemma main_prefix:
  "prefix [Load_dotenv, Boto3_client (main_s3 X environ)] (trace (snd (main X environ argv s)))"
proof (cases "length argv < 2")
  case True
  then show ?thesis
    by (simp add: main_unfold print_def log_def started_def)
next
  case False
  let ?p = "argv ! 1"
  let ?w2 = "started X environ s"
  have t2: "trace ?w2 = [Load_dotenv, Boto3_client (main_s3 X environ)]"
    by (simp add: started_def)
  obtain r3 w3 where o: "open_rb ?p ?w2 = (r3, w3)" by (cases "open_rb ?p ?w2")
  then have p3: "prefix (trace ?w2) (trace w3)"
    using open_rb_world[of ?p ?w2] by (simp add: trace_log)
  have pc: "prefix (trace ?w2) (trace (print m w3))" for m
    using p3 by (simp add: print_def trace_log prefix_def) auto
  obtain r4 w4 where c4: "convert_mp4_to_hsl X ?p w3 = (r4, w4)"
    by (cases "convert_mp4_to_hsl X ?p w3")
  then have p4: "prefix (trace ?w2) (trace w4)"
    using convert_mp4_to_hsl_prefix[of w3 X ?p] p3 by (auto intro: prefix_order.trans)
  have rest: "prefix (trace ?w2) (trace w')"
    if "(case compress_fmp4 X d w4 of
           (Inl e, w5) \<Rightarrow> (Inl e, w5)
         | (Inr u, w5) \<Rightarrow>
             (case upload_to_aws X (main_s3 X environ) BUCKET_NAME REGION_NAME d w5 of
                (Inl e, w6) \<Rightarrow> (Inl e, w6)
              | (Inr url, w6) \<Rightarrow> remove_fmp4 d (print url w6))) = (r, w')" for d r w'
  proof -
    obtain r5 w5 where c5: "compress_fmp4 X d w4 = (r5, w5)"
      by (cases "compress_fmp4 X d w4")
    then have p5: "prefix (trace ?w2) (trace w5)"
      using compress_fmp4_prefix[of w4 X d] p4 by (auto intro: prefix_order.trans)
    obtain r6 w6 where c6:
      "upload_to_aws X (main_s3 X environ) BUCKET_NAME REGION_NAME d w5 = (r6, w6)"
      by (cases "upload_to_aws X (main_s3 X environ) BUCKET_NAME REGION_NAME d w5")
    then have p6: "prefix (trace ?w2) (trace w6)"
      using upload_to_aws_prefix[of w5 X "main_s3 X environ" BUCKET_NAME REGION_NAME d] p5
      by (auto intro: prefix_order.trans)
    have p7: "prefix (trace ?w2) (trace w')"
      if "remove_fmp4 d (print url w6) = (r, w')" for url r w'
    proof -
      have "trace w' = trace w6 @ [Print url, Rmtree d]"
        using shutil_rmtree_trace[of d "print url w6"] that
        by (simp add: remove_fmp4_def print_def trace_log)
      then show ?thesis using p6 by (auto simp: prefix_def)
    qed
    show ?thesis
      using that c5 c6 p5 p6 p7
      by (cases r5; cases r6) (auto simp del: One_nat_def)
  qed
  show ?thesis
  proof (cases r3)
    case (Inl e)
    then show ?thesis using False o p3 t2 by (simp add: main_unfold del: One_nat_def)
  next
    case (Inr f)
    show ?thesis
    proof (cases "verify_mp4_integrity X f")
      case v: False
      then show ?thesis using False o Inr pc t2 by (simp add: main_unfold del: One_nat_def)
    next
      case v: True
      show ?thesis
      proof (cases r4)
        case (Inl e)
        then show ?thesis using False o Inr v c4 p4 t2
          by (simp add: main_unfold del: One_nat_def)
      next
        case r4: (Inr d)
        obtain r w' where m: "main X environ argv s = (r, w')"
          by (cases "main X environ argv s")
        then have "prefix (trace ?w2) (trace w')"
          using False o Inr v c4 r4 rest[of d r w']
          by (simp add: main_unfold del: One_nat_def)
        then show ?thesis using m t2 by simp
      qed
    qed
  qed
qed


text \<open>
  C9, as the code has it. The two credentials are looked up after \<^verbatim>\<open>load_dotenv\<close>,
  turned into text with \<^verbatim>\<open>str\<close> and stripped; the stripped text is what
  \<^verbatim>\<open>boto3.client\<close> receives, in every run. Stripping removes a run of whitespace at
  each end and nothing else, and leaves no whitespace at either end. A variable that is
  not set is not an error: \<^verbatim>\<open>str(None)\<close> is the text \<^verbatim>\<open>None\<close>.
\<close>

theorem credentials_are_stripped:
  "prefix [Load_dotenv, Boto3_client (main_s3 X environ)] (trace (snd (main X environ argv s)))
   \<and> aws_access_key_id (main_s3 X environ) =
       strip (case (dotenv_values X ++ environ) ''ACCESS_KEY_ID'' of
                None \<Rightarrow> ''None'' | Some v \<Rightarrow> v)
   \<and> aws_secret_access_key (main_s3 X environ) =
       strip (case (dotenv_values X ++ environ) ''SECRET_ACCESS_KEY'' of
                None \<Rightarrow> ''None'' | Some v \<Rightarrow> v)
   \<and> (\<exists>l r. v = l @ strip v @ r \<and> list_all isspace l \<and> list_all isspace r)
   \<and> (strip v \<noteq> [] \<longrightarrow> \<not> isspace (hd (strip v)) \<and> \<not> isspace (last (strip v)))"
proof (intro conjI)
  show "prefix [Load_dotenv, Boto3_client (main_s3 X environ)]
          (trace (snd (main X environ argv s)))"
    by (rule main_prefix)
  show "aws_access_key_id (main_s3 X environ) =
       strip (case (dotenv_values X ++ environ) ''ACCESS_KEY_ID'' of
                None \<Rightarrow> ''None'' | Some v \<Rightarrow> v)"
    by (simp add: main_s3_def str_def)
  show "aws_secret_access_key (main_s3 X environ) =
       strip (case (dotenv_values X ++ environ) ''SECRET_ACCESS_KEY'' of
                None \<Rightarrow> ''None'' | Some v \<Rightarrow> v)"
    by (simp add: main_s3_def str_def)
  show "\<exists>l r. v = l @ strip v @ r \<and> list_all isspace l \<and> list_all isspace r"
    by (rule strip_decompose)
  show "strip v \<noteq> [] \<longrightarrow> \<not> isspace (hd (strip v)) \<and> \<not> isspace (last (strip v))"
    using strip_ends by blast
qed

theorem credentials_are_stripped_witness:
  "strip '' AKIA1 '' \<noteq> []
   \<and> \<not> isspace (hd (strip '' AKIA1 ''))
   \<and> \<not> isspace (last (strip '' AKIA1 ''))
   \<and> aws_access_key_id
        (main_s3 demo_externals
           [''ACCESS_KEY_ID'' \<mapsto> '' AKIA1 '', ''SECRET_ACCESS_KEY'' \<mapsto> ''s3cr3t'' @ [CHR 0x0A]]) =
       ''AKIA1''
   \<and> aws_secret_access_key
        (main_s3 demo_externals
           [''ACCESS_KEY_ID'' \<mapsto> '' AKIA1 '', ''SECRET_ACCESS_KEY'' \<mapsto> ''s3cr3t'' @ [CHR 0x0A]]) =
       ''s3cr3t''"
proof -
  let ?env = "[''ACCESS_KEY_ID'' \<mapsto> '' AKIA1 '', ''SECRET_ACCESS_KEY'' \<mapsto> ''s3cr3t'' @ [CHR 0x0A]]"
  note T = credentials_are_stripped[of demo_externals ?env "[]" "[]" "'' AKIA1 ''"]
  have ne: "strip '' AKIA1 '' \<noteq> []"
    by (simp add: strip_def isspace_def)
  have ends: "\<not> isspace (hd (strip '' AKIA1 '')) \<and> \<not> isspace (last (strip '' AKIA1 ''))"
    by (rule T[THEN conjunct2, THEN conjunct2, THEN conjunct2, THEN conjunct2, THEN mp, OF ne])
  have k: "aws_access_key_id (main_s3 demo_externals ?env) = ''AKIA1''"
    using T[THEN conjunct2, THEN conjunct1]
    by (simp add: demo_externals_def strip_def isspace_def)
  have sk: "aws_secret_access_key (main_s3 demo_externals ?env) = ''s3cr3t''"
    using T[THEN conjunct2, THEN conjunct2, THEN conjunct1]
    by (simp add: demo_externals_def strip_def isspace_def)
  from ne ends k sk show ?thesis by (intro conjI) simp_all
qed

text \<open>
  Neither variable is set, in the environment or in the \<^verbatim>\<open>.env\<close> file. The run goes
  on with the text \<^verbatim>\<open>None\<close> for both: the input is checked, segmented and removed,
  the manifest is compressed, and the first failure is the storage service refusing the
  first upload.
\<close>

theorem run_without_credentials_proceeds:
  "(dotenv_values refusing_storage ++ Map.empty) ''ACCESS_KEY_ID'' = None
   \<and> (dotenv_values refusing_storage ++ Map.empty) ''SECRET_ACCESS_KEY'' = None
   \<and> fst (main refusing_storage Map.empty [''media.py'', ''clip.mp4''] demo_store) =
       Inl S3UploadFailedError
   \<and> take 5 (trace (snd (main refusing_storage Map.empty [''media.py'', ''clip.mp4'']
                           demo_store))) =
       [Load_dotenv,
        Boto3_client
          \<lparr>region_name = ''us-east-2'', endpoint_url = ''https://s3.us-east-2.amazonaws.com'',
           aws_access_key_id = ''None'', aws_secret_access_key = ''None'',
           signature_version = ''s3v4''\<rparr>,
        Open_rb ''clip.mp4'',
        Subprocess_run [''video2hls/video2hls'', ''--debug'', ''--output'', ''clip.fmp4'',
          ''--hls-type'', ''fmp4'', ''clip.mp4''],
        Os_remove ''clip.mp4'']
   \<and> lookup (files (snd (main refusing_storage Map.empty [''media.py'', ''clip.mp4'']
                           demo_store))) [''clip.mp4''] = None
   \<and> fst (main demo_externals Map.empty [''media.py'', ''clip.mp4''] demo_store) = Inr ()"
  by (simp add: main_defs program_defs op_defs path_defs demo_defs Let_def)

section \<open>Compressing a flat directory\<close>

lemma lookup_update:
  "k \<noteq> [] \<Longrightarrow> lookup (AList.update k v s) q = (if q = k then Some v else lookup s q)"
  by (auto simp: lookup_def update_conv')

lemma is_dir_lookup: "is_dir s p = (lookup s p = Some Dir)"
  by (simp add: is_dir_def)

text \<open>
  One round of the loop on a manifest that is a regular file directly under the
  directory: the file now holds the encoder's output, the temporary file is gone, and
  nothing else has changed.
\<close>

lemma compress_loop_step:
  assumes n: "valid_name (name m)"
    and isfile: "lookup (files w) (parts d @ [name m]) = Some (File b)"
    and tmp: "lookup (files w) (parts d @ [name m @ ''.gz'']) \<noteq> Some Dir"
    and dir: "is_dir (files w) (parts d)"
  shows "\<exists>w3. compress_loop X d (m # ms) w = compress_loop X d ms w3 \<and>
           (\<forall>q. lookup (files w3) q =
                  (if q = parts d @ [name m] then Some (File (gzip_compress X b))
                   else if q = parts d @ [name m @ ''.gz''] then None
                   else lookup (files w) q)) \<and>
           (distinct (map fst (files w)) \<longrightarrow> distinct (map fst (files w3)))"
proof -
  define fp where "fp = os_path_join d (name m)"
  define tp where "tp = fp @ ''.gz''"
  define M where "M = parts d @ [name m]"
  define G where "G = parts d @ [name m @ ''.gz'']"
  define z where "z = gzip_compress X b"
  have pM: "parts fp = M"
    unfolding fp_def M_def using n by (rule parts_join)
  have pG: "parts tp = G"
    unfolding tp_def fp_def G_def using n by (rule parts_join_gz)
  have ne: "M \<noteq> []" "G \<noteq> []" "M \<noteq> G" "parts d \<noteq> G" "parts d \<noteq> M"
    "butlast G = parts d" "butlast M = parts d"
    by (simp_all add: M_def G_def)
  define w1 where "w1 = log (Open_rb fp) w"
  have o: "open_rb fp w = (Inr b, w1)"
    unfolding w1_def using isfile by (intro open_rb_File) (simp add: pM M_def)
  have f1: "files w1 = files w"
    by (simp add: w1_def files_log)
  define w2 where
    "w2 = (log (Gzip_open_wb tp) w1)\<lparr>files := AList.update G (File z) (files w1)\<rparr>"
  have g: "gzip_open_wb X tp b w1 = (Inr (), w2)"
    using tmp dir ne
    by (simp add: gzip_open_wb_def Let_def pG is_dir_lookup f1 w2_def z_def G_def[symmetric])
  have f2: "files w2 = AList.update G (File z) (files w)"
    by (simp add: w2_def f1)
  have l2: "lookup (files w2) q = (if q = G then Some (File z) else lookup (files w) q)" for q
    by (simp add: f2 lookup_update[OF ne(2)])
  define w3 where
    "w3 = (log (Os_replace tp fp) w2)\<lparr>files :=
             AList.update M (File z) (AList.delete G (files w2))\<rparr>"
  have r: "os_replace tp fp w2 = (Inr (), w3)"
    using isfile dir ne
    by (simp add: os_replace_def Let_def pG pM is_dir_lookup l2 w3_def M_def[symmetric])
  have f3: "files w3 = AList.update M (File z) (AList.delete G (files w2))"
    by (simp add: w3_def)
  have l3: "lookup (files w3) q =
              (if q = M then Some (File z) else if q = G then None else lookup (files w) q)" for q
    by (simp add: f3 lookup_update[OF ne(1)] lookup_delete[OF ne(2)] l2)
  have d3: "distinct (map fst (files w)) \<longrightarrow> distinct (map fst (files w3))"
    by (simp add: f3 f2 distinct_update distinct_delete)
  have "compress_loop X d (m # ms) w = compress_loop X d ms w3"
    using o g r by (simp add: fp_def[symmetric] tp_def[symmetric] Let_def)
  then show ?thesis
    using l3 d3 unfolding M_def G_def z_def by blast
qed

lemma compress_loop_flat:
  assumes "distinct ms"
    and "\<forall>m \<in> set ms. valid_name (name m) \<and> m = parts d @ [name m] \<and>
           (\<exists>b. lookup (files w) m = Some (File b)) \<and>
           lookup (files w) (parts d @ [name m @ ''.gz'']) \<noteq> Some Dir"
    and "\<forall>m \<in> set ms. \<forall>m' \<in> set ms. m' \<noteq> parts d @ [name m @ ''.gz'']"
    and "is_dir (files w) (parts d)"
  shows "\<exists>w'. compress_loop X d ms w = (Inr (), w') \<and>
          (\<forall>q. lookup (files w') q =
             (if q \<in> set ms
              then (case lookup (files w) q of
                      Some (File b) \<Rightarrow> Some (File (gzip_compress X b)) | x \<Rightarrow> x)
              else if q \<in> (\<lambda>m. parts d @ [name m @ ''.gz'']) ` set ms then None
              else lookup (files w) q)) \<and>
          (distinct (map fst (files w)) \<longrightarrow> distinct (map fst (files w')))"
  using assms
proof (induction ms arbitrary: w)
  case Nil
  then show ?case by simp
next
  case (Cons m ms)
  define gp where "gp = (\<lambda>m. parts d @ [name m @ ''.gz''])"
  define zf where "zf = (\<lambda>x. case x of
                      Some (File b) \<Rightarrow> Some (File (gzip_compress X b)) | x \<Rightarrow> x)"
  have gp_eq: "parts d @ [name a @ ''.gz''] = gp a" for a
    by (simp add: gp_def)
  have zf_eq: "(case x of Some (File b) \<Rightarrow> Some (File (gzip_compress X b)) | x \<Rightarrow> x) = zf x"
    for x
    by (simp add: zf_def)
  have gp_inj: "gp a = gp c \<longleftrightarrow> name a = name c" for a c
    by (simp add: gp_def)
  have gp_len: "gp a \<noteq> parts d" for a
    by (simp add: gp_def)
  note p2 = Cons.prems(2)[unfolded gp_eq]
  note p3 = Cons.prems(3)[unfolded gp_eq]
  have mm: "m \<notin> set ms" "distinct ms"
    using Cons.prems(1) by simp_all
  from p2 obtain b where
    vm: "valid_name (name m)" and em: "m = parts d @ [name m]"
    and bm: "lookup (files w) m = Some (File b)"
    and tm: "lookup (files w) (gp m) \<noteq> Some Dir"
    by auto
  have bm': "lookup (files w) (parts d @ [name m]) = Some (File b)"
    using bm em by simp
  from compress_loop_step[OF vm bm' tm[unfolded gp_def] Cons.prems(4), of X ms, unfolded gp_eq]
  obtain w3 where st: "compress_loop X d (m # ms) w = compress_loop X d ms w3"
    and l3': "\<forall>q. lookup (files w3) q =
                  (if q = parts d @ [name m] then Some (File (gzip_compress X b))
                   else if q = gp m then None
                   else lookup (files w) q)"
    and d3: "distinct (map fst (files w)) \<longrightarrow> distinct (map fst (files w3))"
    by blast
  have l3: "lookup (files w3) q =
              (if q = m then Some (File (gzip_compress X b))
               else if q = gp m then None else lookup (files w) q)" for q
    using l3' em by simp
  have other: "\<forall>m' \<in> set ms. m' \<noteq> m \<and> m' \<noteq> gp m \<and> gp m' \<noteq> m \<and> gp m' \<noteq> gp m"
  proof
    fix m' assume a: "m' \<in> set ms"
    have 1: "m' \<noteq> m" using a mm by auto
    have 2: "m' \<noteq> gp m" using p3 a by simp
    have 3: "gp m' \<noteq> m" using p3 a by auto
    have e': "m' = parts d @ [name m']" using p2 a by simp
    have "name m' \<noteq> name m"
    proof
      assume "name m' = name m"
      then have "m' = m" using e' em by simp
      with 1 show False by (rule notE)
    qed
    then have 4: "gp m' \<noteq> gp m" by (simp add: gp_inj)
    from 1 2 3 4 show "m' \<noteq> m \<and> m' \<noteq> gp m \<and> gp m' \<noteq> m \<and> gp m' \<noteq> gp m" by simp
  qed
  have a2: "\<forall>m' \<in> set ms. valid_name (name m') \<and> m' = parts d @ [name m'] \<and>
           (\<exists>b. lookup (files w3) m' = Some (File b)) \<and>
           lookup (files w3) (parts d @ [name m' @ ''.gz'']) \<noteq> Some Dir"
    unfolding gp_eq using p2 other by (simp add: l3)
  have a3: "\<forall>m \<in> set ms. \<forall>m' \<in> set ms. m' \<noteq> parts d @ [name m @ ''.gz'']"
    using Cons.prems(3) by simp
  have dm: "parts d \<noteq> m"
    using em by (metis append_self_conv not_Cons_self2)
  have a4: "is_dir (files w3) (parts d)"
    using Cons.prems(4) dm gp_len[of m] by (simp add: is_dir_lookup l3)
  from Cons.IH[OF mm(2) a2 a3 a4, unfolded gp_eq zf_eq]
  obtain w' where r: "compress_loop X d ms w3 = (Inr (), w')"
    and l: "\<forall>q. lookup (files w') q =
             (if q \<in> set ms then zf (lookup (files w3) q)
              else if q \<in> gp ` set ms then None else lookup (files w3) q)"
    and dd: "distinct (map fst (files w3)) \<longrightarrow> distinct (map fst (files w'))"
    by blast
  have m_not_gp: "m \<notin> gp ` set ms"
    using other by auto
  have gm_not: "gp m \<notin> set ms" "gp m \<notin> gp ` set ms" "gp m \<noteq> m"
    using other p3 by auto
  have final: "lookup (files w') q =
             (if q \<in> set (m # ms) then zf (lookup (files w) q)
              else if q \<in> gp ` set (m # ms) then None else lookup (files w) q)" for q
  proof (cases "q = m")
    case True
    then show ?thesis using l mm(1) m_not_gp bm by (simp add: l3 zf_def)
  next
    case qm: False
    show ?thesis
    proof (cases "q = gp m")
      case True
      then show ?thesis using l gm_not by (simp add: l3)
    next
      case qg: False
      have "lookup (files w3) q = lookup (files w) q"
        using qm qg by (simp add: l3)
      then show ?thesis using l qm qg by simp
    qed
  qed
  have "compress_loop X d (m # ms) w = (Inr (), w')"
    using st r by simp
  moreover have "distinct (map fst (files w)) \<longrightarrow> distinct (map fst (files w'))"
    using d3 dd by blast
  ultimately have "\<exists>w'. compress_loop X d (m # ms) w = (Inr (), w') \<and>
          (\<forall>q. lookup (files w') q =
             (if q \<in> set (m # ms) then zf (lookup (files w) q)
              else if q \<in> gp ` set (m # ms) then None else lookup (files w) q)) \<and>
          (distinct (map fst (files w)) \<longrightarrow> distinct (map fst (files w')))"
    using final by blast
  then show ?case unfolding gp_def zf_def .
qed

section \<open>The exact calls of the two loops\<close>

lemma compress_loop_trace:
  assumes cc: "\<And>m. cc m = [Open_rb (os_path_join d (name m)),
                             Gzip_open_wb (os_path_join d (name m) @ ''.gz''),
                             Os_replace (os_path_join d (name m) @ ''.gz'')
                               (os_path_join d (name m))]"
  shows "\<exists>evs. trace (snd (compress_loop X d ps w)) = trace w @ evs \<and>
           prefix evs (concat (map cc ps)) \<and>
           (fst (compress_loop X d ps w) = Inr () \<longrightarrow> evs = concat (map cc ps)) \<and>
           (ps \<noteq> [] \<longrightarrow> take 1 evs = [Open_rb (os_path_join d (name (hd ps)))])"
proof (induction ps arbitrary: w)
  case Nil
  then show ?case by simp
next
  case (Cons p ps)
  define fp where "fp = os_path_join d (name p)"
  define tp where "tp = fp @ ''.gz''"
  define rest where "rest = concat (map cc ps)"
  have ccp: "cc p = [Open_rb fp, Gzip_open_wb tp, Os_replace tp fp]"
    by (simp add: cc fp_def tp_def)
  have full: "concat (map cc (p # ps)) = [Open_rb fp, Gzip_open_wb tp, Os_replace tp fp] @ rest"
    by (simp add: ccp rest_def)
  have hdp: "os_path_join d (name (hd (p # ps))) = fp"
    by (simp add: fp_def)
  obtain r1 w1 where o: "open_rb fp w = (r1, w1)" by (cases "open_rb fp w")
  then have t1: "trace w1 = trace w @ [Open_rb fp]"
    using open_rb_world[of fp w] by (simp add: trace_log)
  have goal: "\<exists>evs. trace (snd (compress_loop X d (p # ps) w)) = trace w @ evs \<and>
           prefix evs ([Open_rb fp, Gzip_open_wb tp, Os_replace tp fp] @ rest) \<and>
           (fst (compress_loop X d (p # ps) w) = Inr () \<longrightarrow>
              evs = [Open_rb fp, Gzip_open_wb tp, Os_replace tp fp] @ rest) \<and>
           take 1 evs = [Open_rb fp]"
  proof (cases r1)
    case (Inl e)
    then have "compress_loop X d (p # ps) w = (Inl e, w1)"
      using o by (simp add: fp_def[symmetric])
    then show ?thesis using t1 by simp
  next
    case (Inr f_in)
    obtain r2 w2 where g: "gzip_open_wb X tp f_in w1 = (r2, w2)"
      by (cases "gzip_open_wb X tp f_in w1")
    then have t2: "trace w2 = trace w @ [Open_rb fp, Gzip_open_wb tp]"
      using gzip_open_wb_trace[of X tp f_in w1] t1 by simp
    show ?thesis
    proof (cases r2)
      case (Inl e)
      then have "compress_loop X d (p # ps) w = (Inl e, w2)"
        using o Inr g by (simp add: fp_def[symmetric] tp_def[symmetric])
      then show ?thesis using t2 by simp
    next
      case r2: (Inr u)
      obtain r3 w3 where r: "os_replace tp fp w2 = (r3, w3)"
        by (cases "os_replace tp fp w2")
      then have t3: "trace w3 = trace w @ [Open_rb fp, Gzip_open_wb tp, Os_replace tp fp]"
        using os_replace_trace[of tp fp w2] t2 by simp
      show ?thesis
      proof (cases r3)
        case (Inl e)
        then have "compress_loop X d (p # ps) w = (Inl e, w3)"
          using o Inr g r2 r by (simp add: fp_def[symmetric] tp_def[symmetric])
        then show ?thesis using t3 by simp
      next
        case r3: (Inr u')
        have st: "compress_loop X d (p # ps) w = compress_loop X d ps w3"
          using o Inr g r2 r r3 by (simp add: fp_def[symmetric] tp_def[symmetric])
        from Cons.IH[of w3, folded rest_def] obtain evs where
          e1: "trace (snd (compress_loop X d ps w3)) = trace w3 @ evs"
          and e2: "prefix evs rest"
          and e3: "fst (compress_loop X d ps w3) = Inr () \<longrightarrow> evs = rest"
          by blast
        have "trace (snd (compress_loop X d (p # ps) w)) =
                trace w @ ([Open_rb fp, Gzip_open_wb tp, Os_replace tp fp] @ evs)"
          using st e1 t3 by simp
        moreover have "prefix ([Open_rb fp, Gzip_open_wb tp, Os_replace tp fp] @ evs)
                         ([Open_rb fp, Gzip_open_wb tp, Os_replace tp fp] @ rest)"
          using e2 by simp
        moreover have "fst (compress_loop X d (p # ps) w) = Inr () \<longrightarrow>
              [Open_rb fp, Gzip_open_wb tp, Os_replace tp fp] @ evs =
              [Open_rb fp, Gzip_open_wb tp, Os_replace tp fp] @ rest"
          using e3 st by simp
        moreover have "take 1 ([Open_rb fp, Gzip_open_wb tp, Os_replace tp fp] @ evs) =
                         [Open_rb fp]"
          by simp
        ultimately show ?thesis by blast
      qed
    qed
  qed
  show ?case
    unfolding full hdp using goal by simp
qed

lemma upload_loop_trace:
  assumes uc: "\<And>m. uc m =
       [Open_rb (os_path_join d (name m)),
        Upload_fileobj s3
          \<lparr>Fileobj = (case lookup s (parts (os_path_join d (name m))) of
                        Some (File body) \<Rightarrow> body | _ \<Rightarrow> []),
           Bucket = b, Key = ''hls/'' @ base @ ''/'' @ name m, ExtraArgs = extra\<rparr>]"
    and s: "files w = s"
  shows "\<exists>evs. trace (snd (upload_loop X s3 b base d extra ps w)) = trace w @ evs \<and>
           prefix evs (concat (map uc ps)) \<and>
           (fst (upload_loop X s3 b base d extra ps w) = Inr () \<longrightarrow>
              evs = concat (map uc ps)) \<and>
           (ps \<noteq> [] \<longrightarrow> take 1 evs = [Open_rb (os_path_join d (name (hd ps)))])"
  using s
proof (induction ps arbitrary: w)
  case Nil
  then show ?case by simp
next
  case (Cons p ps)
  define fp where "fp = os_path_join d (name p)"
  define k where "k = ''hls/'' @ base @ ''/'' @ name p"
  define rest where "rest = concat (map uc ps)"
  define body where "body = (case lookup s (parts fp) of Some (File body) \<Rightarrow> body | _ \<Rightarrow> [])"
  define u where "u = Upload_fileobj s3 \<lparr>Fileobj = body, Bucket = b, Key = k, ExtraArgs = extra\<rparr>"
  have ucp: "uc p = [Open_rb fp, u]"
    by (simp add: uc fp_def k_def body_def u_def)
  have full: "concat (map uc (p # ps)) = [Open_rb fp, u] @ rest"
    by (simp add: ucp rest_def)
  have hdp: "os_path_join d (name (hd (p # ps))) = fp"
    by (simp add: fp_def)
  obtain r1 w1 where o: "open_rb fp w = (r1, w1)" by (cases "open_rb fp w")
  then have w1: "w1 = log (Open_rb fp) w"
    using open_rb_world[of fp w] by simp
  have t1: "trace w1 = trace w @ [Open_rb fp]"
    by (simp add: w1 trace_log)
  have goal: "\<exists>evs. trace (snd (upload_loop X s3 b base d extra (p # ps) w)) = trace w @ evs \<and>
           prefix evs ([Open_rb fp, u] @ rest) \<and>
           (fst (upload_loop X s3 b base d extra (p # ps) w) = Inr () \<longrightarrow>
              evs = [Open_rb fp, u] @ rest) \<and>
           take 1 evs = [Open_rb fp]"
  proof (cases r1)
    case (Inl e)
    then have "upload_loop X s3 b base d extra (p # ps) w = (Inl e, w1)"
      using o by (simp add: fp_def[symmetric])
    then show ?thesis using t1 by simp
  next
    case (Inr f)
    then have "lookup (files w) (parts fp) = Some (File f)"
      using o open_rb_Inr by blast
    then have bf: "body = f"
      using Cons.prems by (simp add: body_def)
    obtain r2 w2 where g: "upload_fileobj X s3 f b k extra w1 = (r2, w2)"
      by (cases "upload_fileobj X s3 f b k extra w1")
    then have w2: "w2 = log u w1"
      using upload_fileobj_world[of X s3 f b k extra w1] bf by (simp add: u_def)
    have t2: "trace w2 = trace w @ [Open_rb fp, u]" and f2: "files w2 = s"
      using w1 w2 Cons.prems by (simp_all add: trace_log files_log)
    show ?thesis
    proof (cases r2)
      case (Inl e)
      then have "upload_loop X s3 b base d extra (p # ps) w = (Inl e, w2)"
        using o Inr g by (simp add: fp_def[symmetric] k_def)
      then show ?thesis using t2 by simp
    next
      case r2: (Inr v)
      have st: "upload_loop X s3 b base d extra (p # ps) w =
                  upload_loop X s3 b base d extra ps w2"
        using o Inr g r2 by (simp add: fp_def[symmetric] k_def)
      from Cons.IH[OF f2, folded rest_def] obtain evs where
        e1: "trace (snd (upload_loop X s3 b base d extra ps w2)) = trace w2 @ evs"
        and e2: "prefix evs rest"
        and e3: "fst (upload_loop X s3 b base d extra ps w2) = Inr () \<longrightarrow> evs = rest"
        by blast
      have "trace (snd (upload_loop X s3 b base d extra (p # ps) w)) =
              trace w @ ([Open_rb fp, u] @ evs)"
        using st e1 t2 by simp
      moreover have "prefix ([Open_rb fp, u] @ evs) ([Open_rb fp, u] @ rest)"
        using e2 by simp
      moreover have "fst (upload_loop X s3 b base d extra (p # ps) w) = Inr () \<longrightarrow>
            [Open_rb fp, u] @ evs = [Open_rb fp, u] @ rest"
        using e3 st by simp
      moreover have "take 1 ([Open_rb fp, u] @ evs) = [Open_rb fp]"
        by simp
      ultimately show ?thesis by blast
    qed
  qed
  show ?case
    unfolding full hdp using goal by simp
qed

lemma take1_prefix: "take 1 evs = [x] \<Longrightarrow> prefix (t @ [x]) (t @ evs)"
  by (cases evs) simp_all

lemma first_call_append:
  assumes "ps \<noteq> [] \<longrightarrow> take 1 es = [f (hd ps)]"
    and "ps = [] \<longrightarrow> es = []"
    and "qs \<noteq> [] \<longrightarrow> take 1 fs = [f (hd qs)]"
  shows "ps @ qs \<noteq> [] \<longrightarrow> take 1 (es @ fs) = [f (hd (ps @ qs))]"
proof (cases "ps = []")
  case True
  then show ?thesis using assms by simp
next
  case False
  then have "take 1 es = [f (hd ps)]" using assms(1) by simp
  then have "take 1 (es @ fs) = [f (hd ps)]" by (cases es) simp_all
  then show ?thesis using False by simp
qed

lemma compress_fmp4_trace:
  assumes cc: "\<And>m. cc m = [Open_rb (os_path_join d (name m)),
                             Gzip_open_wb (os_path_join d (name m) @ ''.gz''),
                             Os_replace (os_path_join d (name m) @ ''.gz'')
                               (os_path_join d (name m))]"
    and ps: "ps = rglob (files w) d ''*.m3u8''"
  shows "(fst (compress_fmp4 X d w) = Inr () \<longrightarrow>
            trace (snd (compress_fmp4 X d w)) =
              trace w @ concat (map cc ps) @ [Print ''Compressed all files with gzip''])
         \<and> (ps \<noteq> [] \<longrightarrow>
              prefix (trace w @ [Open_rb (os_path_join d (name (hd ps)))])
                (trace (snd (compress_fmp4 X d w))))"
proof -
  define msg where "msg = Print ''Compressed all files with gzip''"
  define f where "f = (\<lambda>m. Open_rb (os_path_join d (name m)))"
  obtain r w1 where l: "compress_loop X d ps w = (r, w1)"
    by (cases "compress_loop X d ps w")
  from compress_loop_trace[of cc d X ps w, OF cc] l obtain evs where
    t: "trace w1 = trace w @ evs"
    and full: "r = Inr () \<longrightarrow> evs = concat (map cc ps)"
    and first: "ps \<noteq> [] \<longrightarrow> take 1 evs = [f (hd ps)]"
    unfolding f_def by auto
  show ?thesis
  proof (cases r)
    case (Inl e)
    then have c: "compress_fmp4 X d w = (Inl e, w1)"
      using l by (simp add: compress_fmp4_def ps)
    have "ps \<noteq> [] \<longrightarrow> prefix (trace w @ [f (hd ps)]) (trace w1)"
      using first t take1_prefix[of evs "f (hd ps)" "trace w"] by simp
    then show ?thesis using c unfolding f_def by simp
  next
    case (Inr u)
    then have c: "compress_fmp4 X d w = (Inr (), print ''Compressed all files with gzip'' w1)"
      using l by (simp add: compress_fmp4_def ps)
    have tt: "trace (print ''Compressed all files with gzip'' w1) =
                trace w @ concat (map cc ps) @ [Print ''Compressed all files with gzip'']"
      using t full Inr by (simp add: print_def trace_log)
    have "ps \<noteq> [] \<longrightarrow> take 1 (evs @ [msg]) = [f (hd ps)]"
      using first by (cases evs) simp_all
    then have "ps \<noteq> [] \<longrightarrow> prefix (trace w @ [f (hd ps)]) (trace w @ (evs @ [msg]))"
      using take1_prefix[of "evs @ [msg]" "f (hd ps)" "trace w"] by blast
    moreover have "trace (print ''Compressed all files with gzip'' w1) = trace w @ (evs @ [msg])"
      using t by (simp add: print_def trace_log msg_def)
    ultimately have "ps \<noteq> [] \<longrightarrow>
        prefix (trace w @ [f (hd ps)]) (trace (print ''Compressed all files with gzip'' w1))"
      by simp
    then show ?thesis using c tt unfolding f_def by simp
  qed
qed

lemma upload_loop_Nil_Inr: "ps = [] \<Longrightarrow> fst (upload_loop X s3 b base d extra ps w) = Inr ()"
  by simp

lemma upload_loop_files: "files (snd (upload_loop X s3 b base d extra ps w)) = files w"
  using upload_loop_calls[of X s3 b base d extra ps w] by (rule conjunct1)

lemma upload_to_aws_trace:
  assumes uc: "\<And>extra m. uc extra m =
       [Open_rb (os_path_join d (name m)),
        Upload_fileobj s3
          \<lparr>Fileobj = (case lookup (files w) (parts (os_path_join d (name m))) of
                        Some (File body) \<Rightarrow> body | _ \<Rightarrow> []),
           Bucket = b, Key = ''hls/'' @ os_path_basename d @ ''/'' @ name m,
           ExtraArgs = extra\<rparr>]"
    and ps: "ps1 = rglob (files w) d ''*.m3u8''" "ps2 = rglob (files w) d ''*.jpg''"
      "ps3 = rglob (files w) d ''*.mp4''"
  shows "((\<exists>url. fst (upload_to_aws X s3 b r d w) = Inr url) \<longrightarrow>
            trace (snd (upload_to_aws X s3 b r d w)) =
              trace w @ concat (map (uc m3u8_args) ps1) @ concat (map (uc jpg_args) ps2) @
                concat (map (uc mp4_args) ps3))
         \<and> (ps1 @ ps2 @ ps3 \<noteq> [] \<longrightarrow>
              prefix (trace w @ [Open_rb (os_path_join d (name (hd (ps1 @ ps2 @ ps3))))])
                (trace (snd (upload_to_aws X s3 b r d w))))"
proof -
  define base where "base = os_path_basename d"
  define f where "f = (\<lambda>m. Open_rb (os_path_join d (name m)))"
  define C1 where "C1 = concat (map (uc m3u8_args) ps1)"
  define C2 where "C2 = concat (map (uc jpg_args) ps2)"
  define C3 where "C3 = concat (map (uc mp4_args) ps3)"
  have loop: "\<exists>evs. trace (snd (upload_loop X s3 b base d extra qs v)) = trace v @ evs \<and>
           (qs = [] \<longrightarrow> evs = []) \<and>
           (fst (upload_loop X s3 b base d extra qs v) = Inr () \<longrightarrow>
              evs = concat (map (uc extra) qs)) \<and>
           (qs \<noteq> [] \<longrightarrow> take 1 evs = [f (hd qs)])"
    if "files v = files w" for extra qs v
  proof -
    from upload_loop_trace[of "uc extra" d s3 "files w" b base extra v X qs, OF _ that]
    obtain evs where
      a: "trace (snd (upload_loop X s3 b base d extra qs v)) = trace v @ evs"
      and p: "prefix evs (concat (map (uc extra) qs))"
      and c: "fst (upload_loop X s3 b base d extra qs v) = Inr () \<longrightarrow>
                evs = concat (map (uc extra) qs)"
      and h: "qs \<noteq> [] \<longrightarrow> take 1 evs = [f (hd qs)]"
      unfolding f_def base_def using uc by blast
    from p have "qs = [] \<longrightarrow> evs = []" by auto
    with a c h show ?thesis by blast
  qed
  obtain r1 w1 where l1: "upload_loop X s3 b base d m3u8_args ps1 w = (r1, w1)"
    by (cases "upload_loop X s3 b base d m3u8_args ps1 w")
  have f1: "files w1 = files w"
    using upload_loop_files[of X s3 b base d m3u8_args ps1 w] l1 by simp
  from loop[of w m3u8_args ps1] l1 obtain e1 where
    t1: "trace w1 = trace w @ e1" and n1: "ps1 = [] \<longrightarrow> e1 = []"
    and c1: "r1 = Inr () \<longrightarrow> e1 = C1" and h1: "ps1 \<noteq> [] \<longrightarrow> take 1 e1 = [f (hd ps1)]"
    unfolding C1_def by auto
  obtain r2 w2 where l2: "upload_loop X s3 b base d jpg_args ps2 w1 = (r2, w2)"
    by (cases "upload_loop X s3 b base d jpg_args ps2 w1")
  have f2: "files w2 = files w"
    using upload_loop_files[of X s3 b base d jpg_args ps2 w1] l2 f1 by simp
  from loop[of w1 jpg_args ps2, OF f1] l2 obtain e2 where
    t2: "trace w2 = trace w1 @ e2" and n2: "ps2 = [] \<longrightarrow> e2 = []"
    and c2: "r2 = Inr () \<longrightarrow> e2 = C2" and h2: "ps2 \<noteq> [] \<longrightarrow> take 1 e2 = [f (hd ps2)]"
    unfolding C2_def by auto
  obtain r3 w3 where l3: "upload_loop X s3 b base d mp4_args ps3 w2 = (r3, w3)"
    by (cases "upload_loop X s3 b base d mp4_args ps3 w2")
  from loop[of w2 mp4_args ps3, OF f2] l3 obtain e3 where
    t3: "trace w3 = trace w2 @ e3" and n3: "ps3 = [] \<longrightarrow> e3 = []"
    and c3: "r3 = Inr () \<longrightarrow> e3 = C3" and h3: "ps3 \<noteq> [] \<longrightarrow> take 1 e3 = [f (hd ps3)]"
    unfolding C3_def by auto
  have nil1: "ps1 = [] \<longrightarrow> r1 = Inr ()"
    using l1 by auto
  have nil2: "ps2 = [] \<longrightarrow> r2 = Inr ()"
    using l2 by auto
  have nil3: "ps3 = [] \<longrightarrow> r3 = Inr ()"
    using l3 by auto
  have h12: "ps1 @ ps2 \<noteq> [] \<longrightarrow> take 1 (e1 @ e2) = [f (hd (ps1 @ ps2))]"
    using h1 n1 h2 by (rule first_call_append)
  have n12: "ps1 @ ps2 = [] \<longrightarrow> e1 @ e2 = []"
    using n1 n2 by simp
  have h123: "(ps1 @ ps2) @ ps3 \<noteq> [] \<longrightarrow> take 1 ((e1 @ e2) @ e3) = [f (hd ((ps1 @ ps2) @ ps3))]"
    using h12 n12 h3 by (rule first_call_append)
  define R where "R = upload_to_aws X s3 b r d w"
  define all where "all = ps1 @ ps2 @ ps3"
  have R: "R = (case r1 of Inl e \<Rightarrow> (Inl e, w1) | Inr u1 \<Rightarrow>
                (case r2 of Inl e \<Rightarrow> (Inl e, w2) | Inr u2 \<Rightarrow>
                  (case r3 of Inl e \<Rightarrow> (Inl e, w3)
                   | Inr u3 \<Rightarrow> (Inr (get_object_url b r base), w3))))"
    using l1 l2 l3 f1 f2
    by (simp add: R_def upload_to_aws_def Let_def base_def[symmetric] ps split: sum.splits)
  have full: "(\<exists>url. fst R = Inr url) \<longrightarrow> trace (snd R) = trace w @ C1 @ C2 @ C3"
    using R t1 t2 t3 c1 c2 c3 by (auto split: sum.splits)
  have first: "all \<noteq> [] \<longrightarrow> prefix (trace w @ [f (hd all)]) (trace (snd R))"
  proof
    assume ne: "all \<noteq> []"
    show "prefix (trace w @ [f (hd all)]) (trace (snd R))"
    proof (cases r1)
      case (Inl e)
      then have "ps1 \<noteq> []" using nil1 by auto
      then have "take 1 e1 = [f (hd all)]" using h1 by (simp add: all_def)
      then have "prefix (trace w @ [f (hd all)]) (trace w @ e1)" by (rule take1_prefix)
      then show ?thesis using R Inl t1 by simp
    next
      case i1: (Inr u1)
      show ?thesis
      proof (cases r2)
        case (Inl e)
        then have "ps2 \<noteq> []" using nil2 by auto
        then have "take 1 (e1 @ e2) = [f (hd all)]"
          using h12 by (cases "ps1 = []") (simp_all add: all_def)
        then have "prefix (trace w @ [f (hd all)]) (trace w @ (e1 @ e2))" by (rule take1_prefix)
        then show ?thesis using R i1 Inl t1 t2 by simp
      next
        case i2: (Inr u2)
        have "take 1 ((e1 @ e2) @ e3) = [f (hd all)]"
          using h123 ne by (simp add: all_def)
        then have "prefix (trace w @ [f (hd all)]) (trace w @ ((e1 @ e2) @ e3))"
          by (rule take1_prefix)
        moreover have "snd R = w3"
          using R i1 i2 by (simp split: sum.splits)
        ultimately show ?thesis using t1 t2 t3 by simp
      qed
    qed
  qed
  show ?thesis
    using full first unfolding R_def all_def C1_def C2_def C3_def f_def by blast
qed

section \<open>Matched files are opened at the top level\<close>

text \<open>
  C10. For each path the recursive glob yields, in the order it yields them,
  \<^verbatim>\<open>compress_fmp4\<close> and \<^verbatim>\<open>upload_to_aws\<close> open the output directory joined with the
  match's base name, never the match itself when it lies in a subdirectory.
  \<^item> The calls of a run that returns are exactly one round per match: open, write of the
    temporary file and rename for \<^verbatim>\<open>compress_fmp4\<close> (then the message); open and upload
    for \<^verbatim>\<open>upload_to_aws\<close>, the three patterns in turn, where the body uploaded is the
    content of the top-level file of that name and the key is
    \<^verbatim>\<open>hls/{base_name}/{name}\<close>. Two matches of the same name give two rounds on the same
    top-level path.
  \<^item> In every run, returning or not, the first call is the open of the first match's
    top-level path, and every call has the top-level form for some match.
\<close>

theorem glob_matches_are_opened_at_top_level:
  assumes names: "list_all (\<lambda>m. valid_name (name m)) (map fst (files w))"
  shows
    "(\<exists>evs. trace (snd (compress_fmp4 X d w)) = trace w @ evs \<and>
        (\<forall>e \<in> set evs. e = Print ''Compressed all files with gzip'' \<or>
           (\<exists>m \<in> set (rglob (files w) d ''*.m3u8'').
              e = Open_rb (os_path_join d (name m)) \<or>
              e = Gzip_open_wb (os_path_join d (name m) @ ''.gz'') \<or>
              e = Os_replace (os_path_join d (name m) @ ''.gz'') (os_path_join d (name m)))) \<and>
        (\<forall>m \<in> set (rglob (files w) d ''*.m3u8'').
           parts (os_path_join d (name m)) = parts d @ [name m] \<and>
           (m \<noteq> parts d @ [name m] \<longrightarrow> (\<forall>p. Open_rb p \<in> set evs \<longrightarrow> parts p \<noteq> m))))
     \<and> (\<exists>evs. trace (snd (upload_to_aws X s3 b r d w)) = trace w @ evs \<and>
        (\<forall>e \<in> set evs.
           \<exists>m \<in> set (rglob (files w) d ''*.m3u8'' @ rglob (files w) d ''*.jpg'' @
                      rglob (files w) d ''*.mp4'').
             e = Open_rb (os_path_join d (name m)) \<or>
             (\<exists>body extra. e = Upload_fileobj s3
                  \<lparr>Fileobj = body, Bucket = b,
                   Key = ''hls/'' @ os_path_basename d @ ''/'' @ name m, ExtraArgs = extra\<rparr> \<and>
                lookup (files w) (parts d @ [name m]) = Some (File body))) \<and>
        (\<forall>m \<in> set (rglob (files w) d ''*.m3u8'' @ rglob (files w) d ''*.jpg'' @
                    rglob (files w) d ''*.mp4'').
           parts (os_path_join d (name m)) = parts d @ [name m] \<and>
           (m \<noteq> parts d @ [name m] \<longrightarrow> (\<forall>p. Open_rb p \<in> set evs \<longrightarrow> parts p \<noteq> m))))
     \<and> trace (snd (compress_fmp4 X ''clip.fmp4'' \<lparr>files = nested_output, trace = []\<rparr>)) =
         [Open_rb ''clip.fmp4/index.m3u8'', Gzip_open_wb ''clip.fmp4/index.m3u8.gz'',
          Os_replace ''clip.fmp4/index.m3u8.gz'' ''clip.fmp4/index.m3u8'',
          Open_rb ''clip.fmp4/index.m3u8'', Gzip_open_wb ''clip.fmp4/index.m3u8.gz'',
          Os_replace ''clip.fmp4/index.m3u8.gz'' ''clip.fmp4/index.m3u8'',
          Print ''Compressed all files with gzip'']
     \<and> (fst (compress_fmp4 X d w) = Inr () \<longrightarrow>
          trace (snd (compress_fmp4 X d w)) =
            trace w @
            concat (map (\<lambda>m. [Open_rb (os_path_join d (name m)),
                               Gzip_open_wb (os_path_join d (name m) @ ''.gz''),
                               Os_replace (os_path_join d (name m) @ ''.gz'')
                                 (os_path_join d (name m))])
                      (rglob (files w) d ''*.m3u8'')) @
            [Print ''Compressed all files with gzip''])
     \<and> (rglob (files w) d ''*.m3u8'' \<noteq> [] \<longrightarrow>
          prefix (trace w @
                    [Open_rb (os_path_join d (name (hd (rglob (files w) d ''*.m3u8''))))])
            (trace (snd (compress_fmp4 X d w))))
     \<and> ((\<exists>url. fst (upload_to_aws X s3 b r d w) = Inr url) \<longrightarrow>
          trace (snd (upload_to_aws X s3 b r d w)) =
            trace w @
            concat (map (\<lambda>m. [Open_rb (os_path_join d (name m)),
                               Upload_fileobj s3
                                 \<lparr>Fileobj = (case lookup (files w) (parts d @ [name m]) of
                                               Some (File body) \<Rightarrow> body | _ \<Rightarrow> []),
                                  Bucket = b,
                                  Key = ''hls/'' @ os_path_basename d @ ''/'' @ name m,
                                  ExtraArgs = m3u8_args\<rparr>])
                      (rglob (files w) d ''*.m3u8'')) @
            concat (map (\<lambda>m. [Open_rb (os_path_join d (name m)),
                               Upload_fileobj s3
                                 \<lparr>Fileobj = (case lookup (files w) (parts d @ [name m]) of
                                               Some (File body) \<Rightarrow> body | _ \<Rightarrow> []),
                                  Bucket = b,
                                  Key = ''hls/'' @ os_path_basename d @ ''/'' @ name m,
                                  ExtraArgs = jpg_args\<rparr>])
                      (rglob (files w) d ''*.jpg'')) @
            concat (map (\<lambda>m. [Open_rb (os_path_join d (name m)),
                               Upload_fileobj s3
                                 \<lparr>Fileobj = (case lookup (files w) (parts d @ [name m]) of
                                               Some (File body) \<Rightarrow> body | _ \<Rightarrow> []),
                                  Bucket = b,
                                  Key = ''hls/'' @ os_path_basename d @ ''/'' @ name m,
                                  ExtraArgs = mp4_args\<rparr>])
                      (rglob (files w) d ''*.mp4'')))
     \<and> (rglob (files w) d ''*.m3u8'' @ rglob (files w) d ''*.jpg'' @
          rglob (files w) d ''*.mp4'' \<noteq> [] \<longrightarrow>
          prefix (trace w @
                    [Open_rb (os_path_join d
                       (name (hd (rglob (files w) d ''*.m3u8'' @ rglob (files w) d ''*.jpg'' @
                                  rglob (files w) d ''*.mp4''))))])
            (trace (snd (upload_to_aws X s3 b r d w))))"
    (is "?C \<and> ?U \<and> ?E \<and> ?CS \<and> ?CF \<and> ?US \<and> ?UF")
proof -
  have vn: "valid_name (name m)" if "m \<in> set (rglob (files w) d pat)" for m pat
    using names that rglob_subset[of "files w" d pat] by (auto simp: list_all_iff)
  have pj: "parts (os_path_join d (name m)) = parts d @ [name m]"
    if "m \<in> set (rglob (files w) d pat)" for m pat
    using vn[OF that] by (rule parts_join)
  have last_eq: "name (parts d @ [n]) = n" for n
    by (simp add: name_def)
  have never: "parts p \<noteq> m"
    if opens: "\<exists>m' \<in> set ps. p = os_path_join d (name m')"
      and pjs: "\<And>m'. m' \<in> set ps \<Longrightarrow> parts (os_path_join d (name m')) = parts d @ [name m']"
      and m: "m \<noteq> parts d @ [name m]" for p m ps
  proof
    assume eq: "parts p = m"
    from opens obtain m' where m': "m' \<in> set ps" "p = os_path_join d (name m')"
      by blast
    then have "parts p = parts d @ [name m']" using pjs by blast
    with eq have a: "m = parts d @ [name m']" by simp
    then have nm: "name m = name m'"
      by (simp add: name_def)
    have c: "m = parts d @ [name m]"
      by (subst nm) (rule a)
    show False by (rule notE[OF m c])
  qed
  have C: ?C
  proof -
    let ?ps = "rglob (files w) d ''*.m3u8''"
    from compress_fmp4_calls[of X d w] obtain evs where
      t: "trace (snd (compress_fmp4 X d w)) = trace w @ evs"
      and q: "\<forall>e \<in> set evs. e = Print ''Compressed all files with gzip'' \<or>
        (\<exists>m \<in> set ?ps.
           e = Open_rb (os_path_join d (name m)) \<or>
           e = Gzip_open_wb (os_path_join d (name m) @ ''.gz'') \<or>
           e = Os_replace (os_path_join d (name m) @ ''.gz'') (os_path_join d (name m)))"
      by blast
    have opens: "\<exists>m' \<in> set ?ps. p = os_path_join d (name m')" if "Open_rb p \<in> set evs" for p
    proof -
      from q that have "Open_rb p = Print ''Compressed all files with gzip'' \<or>
        (\<exists>m \<in> set ?ps.
           Open_rb p = Open_rb (os_path_join d (name m)) \<or>
           Open_rb p = Gzip_open_wb (os_path_join d (name m) @ ''.gz'') \<or>
           Open_rb p = Os_replace (os_path_join d (name m) @ ''.gz'') (os_path_join d (name m)))"
        by (rule bspec)
      then show ?thesis by simp
    qed
    have pj1: "parts (os_path_join d (name m')) = parts d @ [name m']" if "m' \<in> set ?ps" for m'
      using that by (rule pj)
    have third: "\<forall>m \<in> set ?ps.
           parts (os_path_join d (name m)) = parts d @ [name m] \<and>
           (m \<noteq> parts d @ [name m] \<longrightarrow> (\<forall>p. Open_rb p \<in> set evs \<longrightarrow> parts p \<noteq> m))"
    proof (intro ballI conjI impI allI)
      fix m assume "m \<in> set ?ps"
      then show "parts (os_path_join d (name m)) = parts d @ [name m]" by (rule pj1)
    next
      fix m p
      assume a: "m \<noteq> parts d @ [name m]" and b: "Open_rb p \<in> set evs"
      show "parts p \<noteq> m" by (rule never[OF opens[OF b] pj1 a])
    qed
    show ?thesis
      by (rule exI[of _ evs], rule conjI[OF t conjI[OF q third]])
  qed
  have U: ?U
  proof -
    let ?ps = "rglob (files w) d ''*.m3u8'' @ rglob (files w) d ''*.jpg'' @
               rglob (files w) d ''*.mp4''"
    define R where "R = (\<lambda>m e.
          e = Open_rb (os_path_join d (name m)) \<or>
          (\<exists>body extra. e = Upload_fileobj s3
               \<lparr>Fileobj = body, Bucket = b,
                Key = ''hls/'' @ os_path_basename d @ ''/'' @ name m, ExtraArgs = extra\<rparr> \<and>
             lookup (files w) (parts (os_path_join d (name m))) = Some (File body)))"
    define R' where "R' = (\<lambda>m e.
          e = Open_rb (os_path_join d (name m)) \<or>
          (\<exists>body extra. e = Upload_fileobj s3
               \<lparr>Fileobj = body, Bucket = b,
                Key = ''hls/'' @ os_path_basename d @ ''/'' @ name m, ExtraArgs = extra\<rparr> \<and>
             lookup (files w) (parts d @ [name m]) = Some (File body)))"
    have pj': "parts (os_path_join d (name m)) = parts d @ [name m]" if "m \<in> set ?ps" for m
    proof -
      from that have "m \<in> set (rglob (files w) d ''*.m3u8'') \<or>
          m \<in> set (rglob (files w) d ''*.jpg'') \<or> m \<in> set (rglob (files w) d ''*.mp4'')"
        by simp
      then show ?thesis using pj by blast
    qed
    have RR': "R' m e" if "R m e" "m \<in> set ?ps" for m e
      using that(1) unfolding R_def R'_def pj'[OF that(2)] .
    have Ropen: "p = os_path_join d (name m)" if "R m (Open_rb p)" for m p
      using that unfolding R_def by simp
    have "\<exists>evs. trace (snd (upload_to_aws X s3 b r d w)) = trace w @ evs \<and>
            (\<forall>e \<in> set evs. \<exists>m \<in> set ?ps. R m e)"
      using upload_to_aws_calls[of X s3 b r d w] unfolding R_def by (rule conjunct2)
    then obtain evs where
      t: "trace (snd (upload_to_aws X s3 b r d w)) = trace w @ evs"
      and q: "\<forall>e \<in> set evs. \<exists>m \<in> set ?ps. R m e"
      by blast
    have q': "\<forall>e \<in> set evs. \<exists>m \<in> set ?ps. R' m e"
      using q RR' by blast
    have opens: "\<exists>m' \<in> set ?ps. p = os_path_join d (name m')" if "Open_rb p \<in> set evs" for p
      using q that Ropen by blast
    have third: "\<forall>m \<in> set ?ps.
           parts (os_path_join d (name m)) = parts d @ [name m] \<and>
           (m \<noteq> parts d @ [name m] \<longrightarrow> (\<forall>p. Open_rb p \<in> set evs \<longrightarrow> parts p \<noteq> m))"
    proof (intro ballI conjI impI allI)
      fix m assume "m \<in> set ?ps"
      then show "parts (os_path_join d (name m)) = parts d @ [name m]" by (rule pj')
    next
      fix m p
      assume a: "m \<noteq> parts d @ [name m]" and b: "Open_rb p \<in> set evs"
      show "parts p \<noteq> m" by (rule never[OF opens[OF b] pj' a])
    qed
    have "\<exists>evs. trace (snd (upload_to_aws X s3 b r d w)) = trace w @ evs \<and>
        (\<forall>e \<in> set evs. \<exists>m \<in> set ?ps. R' m e) \<and>
        (\<forall>m \<in> set ?ps.
           parts (os_path_join d (name m)) = parts d @ [name m] \<and>
           (m \<noteq> parts d @ [name m] \<longrightarrow> (\<forall>p. Open_rb p \<in> set evs \<longrightarrow> parts p \<noteq> m)))"
      by (rule exI[of _ evs], rule conjI[OF t conjI[OF q' third]])
    then show ?thesis unfolding R'_def .
  qed
  have E: ?E
    by (simp add: program_defs op_defs path_defs nested_output_def Let_def)
  define cc where "cc = (\<lambda>m. [Open_rb (os_path_join d (name m)),
                               Gzip_open_wb (os_path_join d (name m) @ ''.gz''),
                               Os_replace (os_path_join d (name m) @ ''.gz'')
                                 (os_path_join d (name m))])"
  have CSF: "?CS \<and> ?CF"
    using compress_fmp4_trace[of cc d "rglob (files w) d ''*.m3u8''" w X]
    unfolding cc_def by simp
  define uc where "uc = (\<lambda>extra m. [Open_rb (os_path_join d (name m)),
        Upload_fileobj s3
          \<lparr>Fileobj = (case lookup (files w) (parts (os_path_join d (name m))) of
                        Some (File body) \<Rightarrow> body | _ \<Rightarrow> []),
           Bucket = b, Key = ''hls/'' @ os_path_basename d @ ''/'' @ name m,
           ExtraArgs = extra\<rparr>])"
  define ut where "ut = (\<lambda>extra m. [Open_rb (os_path_join d (name m)),
        Upload_fileobj s3
          \<lparr>Fileobj = (case lookup (files w) (parts d @ [name m]) of
                        Some (File body) \<Rightarrow> body | _ \<Rightarrow> []),
           Bucket = b, Key = ''hls/'' @ os_path_basename d @ ''/'' @ name m,
           ExtraArgs = extra\<rparr>])"
  have same: "map (uc extra) (rglob (files w) d pat) = map (ut extra) (rglob (files w) d pat)"
    for extra pat
    by (rule map_cong[OF refl]) (simp add: uc_def ut_def pj)
  have "((\<exists>url. fst (upload_to_aws X s3 b r d w) = Inr url) \<longrightarrow>
            trace (snd (upload_to_aws X s3 b r d w)) =
              trace w @ concat (map (uc m3u8_args) (rglob (files w) d ''*.m3u8'')) @
                concat (map (uc jpg_args) (rglob (files w) d ''*.jpg'')) @
                concat (map (uc mp4_args) (rglob (files w) d ''*.mp4'')))
         \<and> ?UF"
    by (rule upload_to_aws_trace[of uc d s3 w b]) (simp_all add: uc_def)
  then have USF: "((\<exists>url. fst (upload_to_aws X s3 b r d w) = Inr url) \<longrightarrow>
            trace (snd (upload_to_aws X s3 b r d w)) =
              trace w @ concat (map (ut m3u8_args) (rglob (files w) d ''*.m3u8'')) @
                concat (map (ut jpg_args) (rglob (files w) d ''*.jpg'')) @
                concat (map (ut mp4_args) (rglob (files w) d ''*.mp4'')))
         \<and> ?UF"
    unfolding same .
  have US: ?US
    using USF[THEN conjunct1] unfolding ut_def .
  show ?thesis
    by (rule conjI[OF C conjI[OF U conjI[OF E conjI[OF CSF[THEN conjunct1]
          conjI[OF CSF[THEN conjunct2] conjI[OF US USF[THEN conjunct2]]]]]]])
qed

theorem glob_matches_are_opened_at_top_level_witness:
  "list_all (\<lambda>m. valid_name (name m)) (map fst nested_output)
   \<and> [''clip.fmp4'', ''sub'', ''index.m3u8''] \<in> set (rglob nested_output ''clip.fmp4'' ''*.m3u8'')
   \<and> Open_rb ''clip.fmp4/sub/index.m3u8'' \<notin>
       set (trace (snd (compress_fmp4 demo_externals ''clip.fmp4''
                          \<lparr>files = nested_output, trace = []\<rparr>)))
   \<and> Open_rb ''clip.fmp4/sub/index.m3u8'' \<notin>
       set (trace (snd (upload_to_aws demo_externals demo_client ''bucket'' ''region''
                          ''clip.fmp4'' \<lparr>files = nested_output, trace = []\<rparr>)))
   \<and> trace (snd (upload_to_aws demo_externals demo_client ''bucket'' ''region'' ''clip.fmp4''
                   \<lparr>files = demo_output, trace = []\<rparr>)) =
       [Open_rb ''clip.fmp4/index.m3u8'',
        Upload_fileobj demo_client
          \<lparr>Fileobj = [35, 69], Bucket = ''bucket'', Key = ''hls/clip.fmp4/index.m3u8'',
           ExtraArgs = m3u8_args\<rparr>,
        Open_rb ''clip.fmp4/poster.jpg'',
        Upload_fileobj demo_client
          \<lparr>Fileobj = [255, 216], Bucket = ''bucket'', Key = ''hls/clip.fmp4/poster.jpg'',
           ExtraArgs = jpg_args\<rparr>,
        Open_rb ''clip.fmp4/seg0.mp4'',
        Upload_fileobj demo_client
          \<lparr>Fileobj = [3], Bucket = ''bucket'', Key = ''hls/clip.fmp4/seg0.mp4'',
           ExtraArgs = mp4_args\<rparr>]
   \<and> trace (snd (compress_fmp4 demo_externals ''clip.fmp4''
                   \<lparr>files = demo_output, trace = []\<rparr>)) =
       [Open_rb ''clip.fmp4/index.m3u8'', Gzip_open_wb ''clip.fmp4/index.m3u8.gz'',
        Os_replace ''clip.fmp4/index.m3u8.gz'' ''clip.fmp4/index.m3u8'',
        Print ''Compressed all files with gzip'']
   \<and> prefix [Open_rb ''clip.fmp4/index.m3u8'']
       (trace (snd (compress_fmp4 demo_externals ''clip.fmp4''
                      \<lparr>files = nested_only_output, trace = []\<rparr>)))
   \<and> prefix [Open_rb ''clip.fmp4/index.m3u8'']
       (trace (snd (upload_to_aws demo_externals demo_client ''bucket'' ''region''
                      ''clip.fmp4'' \<lparr>files = nested_only_output, trace = []\<rparr>)))"
proof -
  define w where "w = \<lparr>files = nested_output, trace = []\<rparr>"
  define d where "d = ''clip.fmp4''"
  define m where "m = [''clip.fmp4'', ''sub'', ''index.m3u8'']"
  define p where "p = ''clip.fmp4/sub/index.m3u8''"
  define pat where "pat = ''*.m3u8''"
  define ps where "ps = rglob (files w) d pat"
  define qs where "qs = rglob (files w) d pat @ rglob (files w) d ''*.jpg'' @
                        rglob (files w) d ''*.mp4''"
  have h: "list_all (\<lambda>m. valid_name (name m)) (map fst (files w))"
    by (simp add: w_def nested_output_def valid_name_def name_def)
  have m: "m \<in> set ps"
    by (simp add: ps_def pat_def w_def d_def m_def op_defs path_defs nested_output_def)
  then have m': "m \<in> set qs"
    by (simp add: ps_def qs_def)
  have nested: "m \<noteq> parts d @ [name m]"
    by (simp add: m_def d_def parts_def)
  have p: "parts p = m"
    by (simp add: p_def m_def parts_def)
  have tw: "trace w = []"
    by (simp add: w_def)
  note inst = glob_matches_are_opened_at_top_level
         [OF h, of demo_externals d demo_client "''bucket''" "''region''",
          folded pat_def, folded ps_def qs_def]
  from inst[THEN conjunct1] obtain evs where
    t: "trace (snd (compress_fmp4 demo_externals d w)) = trace w @ evs"
    and n: "\<forall>m \<in> set ps.
           parts (os_path_join d (name m)) = parts d @ [name m] \<and>
           (m \<noteq> parts d @ [name m] \<longrightarrow> (\<forall>p. Open_rb p \<in> set evs \<longrightarrow> parts p \<noteq> m))"
    by (elim exE conjE) (rule that)
  from n m nested have "\<forall>p. Open_rb p \<in> set evs \<longrightarrow> parts p \<noteq> m"
    by blast
  with p have c: "Open_rb p \<notin> set evs"
    by blast
  from inst[THEN conjunct2, THEN conjunct1] obtain evs2 where
    t2: "trace (snd (upload_to_aws demo_externals demo_client ''bucket'' ''region'' d w)) =
           trace w @ evs2"
    and n2: "\<forall>m \<in> set qs.
           parts (os_path_join d (name m)) = parts d @ [name m] \<and>
           (m \<noteq> parts d @ [name m] \<longrightarrow> (\<forall>p. Open_rb p \<in> set evs2 \<longrightarrow> parts p \<noteq> m))"
    by (elim exE conjE) (rule that)
  from n2 m' nested have "\<forall>p. Open_rb p \<in> set evs2 \<longrightarrow> parts p \<noteq> m"
    by blast
  with p have c2: "Open_rb p \<notin> set evs2"
    by blast
  have r1: "Open_rb p \<notin> set (trace (snd (compress_fmp4 demo_externals d w)))"
    using c t tw by simp
  have r2: "Open_rb p \<notin>
      set (trace (snd (upload_to_aws demo_externals demo_client ''bucket'' ''region'' d w)))"
    using c2 t2 tw by simp
  have h': "list_all (\<lambda>m. valid_name (name m)) (map fst nested_output)"
    using h by (simp add: w_def)
  have m2: "[''clip.fmp4'', ''sub'', ''index.m3u8''] \<in>
              set (rglob nested_output ''clip.fmp4'' ''*.m3u8'')"
    using m by (simp add: ps_def pat_def w_def d_def m_def)
  let ?v = "\<lparr>files = demo_output, trace = []\<rparr>"
  let ?c = "''clip.fmp4''"
  note ev = program_defs op_defs path_defs demo_defs Let_def
  have hv: "list_all (\<lambda>m. valid_name (name m)) (map fst (files ?v))"
    by (simp add: demo_output_def valid_name_def name_def)
  note T = glob_matches_are_opened_at_top_level
         [OF hv, of demo_externals ?c demo_client "''bucket''" "''region''"]
  have up: "\<exists>url. fst (upload_to_aws demo_externals demo_client ''bucket'' ''region'' ?c ?v) =
              Inr url"
    by (simp add: ev)
  have r3: "trace (snd (upload_to_aws demo_externals demo_client ''bucket'' ''region'' ?c ?v)) =
       [Open_rb ''clip.fmp4/index.m3u8'',
        Upload_fileobj demo_client
          \<lparr>Fileobj = [35, 69], Bucket = ''bucket'', Key = ''hls/clip.fmp4/index.m3u8'',
           ExtraArgs = m3u8_args\<rparr>,
        Open_rb ''clip.fmp4/poster.jpg'',
        Upload_fileobj demo_client
          \<lparr>Fileobj = [255, 216], Bucket = ''bucket'', Key = ''hls/clip.fmp4/poster.jpg'',
           ExtraArgs = jpg_args\<rparr>,
        Open_rb ''clip.fmp4/seg0.mp4'',
        Upload_fileobj demo_client
          \<lparr>Fileobj = [3], Bucket = ''bucket'', Key = ''hls/clip.fmp4/seg0.mp4'',
           ExtraArgs = mp4_args\<rparr>]"
    using T[THEN conjunct2, THEN conjunct2, THEN conjunct2, THEN conjunct2, THEN conjunct2,
            THEN conjunct1, THEN mp, OF up]
    by (simp add: op_defs path_defs demo_defs)
  have cp: "fst (compress_fmp4 demo_externals ?c ?v) = Inr ()"
    by (simp add: ev)
  have r4: "trace (snd (compress_fmp4 demo_externals ?c ?v)) =
       [Open_rb ''clip.fmp4/index.m3u8'', Gzip_open_wb ''clip.fmp4/index.m3u8.gz'',
        Os_replace ''clip.fmp4/index.m3u8.gz'' ''clip.fmp4/index.m3u8'',
        Print ''Compressed all files with gzip'']"
    using T[THEN conjunct2, THEN conjunct2, THEN conjunct2, THEN conjunct1, THEN mp, OF cp]
    by (simp add: op_defs path_defs demo_defs)
  let ?u = "\<lparr>files = nested_only_output, trace = []\<rparr>"
  have hu: "list_all (\<lambda>m. valid_name (name m)) (map fst (files ?u))"
    by (simp add: nested_only_output_def valid_name_def name_def)
  note S = glob_matches_are_opened_at_top_level
         [OF hu, of demo_externals ?c demo_client "''bucket''" "''region''"]
  have ne: "rglob (files ?u) ?c ''*.m3u8'' \<noteq> []"
    by (simp add: op_defs path_defs demo_defs)
  have r5: "prefix [Open_rb ''clip.fmp4/index.m3u8'']
              (trace (snd (compress_fmp4 demo_externals ?c ?u)))"
    using S[THEN conjunct2, THEN conjunct2, THEN conjunct2, THEN conjunct2, THEN conjunct1,
            THEN mp, OF ne]
    by (simp add: op_defs path_defs demo_defs)
  have ne3: "rglob (files ?u) ?c ''*.m3u8'' @ rglob (files ?u) ?c ''*.jpg'' @
             rglob (files ?u) ?c ''*.mp4'' \<noteq> []"
    using ne by simp
  have r6: "prefix [Open_rb ''clip.fmp4/index.m3u8'']
              (trace (snd (upload_to_aws demo_externals demo_client ''bucket'' ''region''
                             ?c ?u)))"
    using S[THEN conjunct2, THEN conjunct2, THEN conjunct2, THEN conjunct2, THEN conjunct2,
            THEN conjunct2, THEN mp, OF ne3]
    by (simp add: op_defs path_defs demo_defs)
  show ?thesis
    using h' m2 r1 r2 r3 r4 r5 r6 unfolding w_def d_def p_def by (intro conjI)
qed

lemma manifest_name_not_gz:
  assumes "fnmatch n' ''*.m3u8''"
  shows "n' \<noteq> n @ ''.gz''"
proof
  assume e: "n' = n @ ''.gz''"
  from assms obtain x where "n' = x @ ''.m3u8''"
    by (auto simp: fnmatch_def suffix_def)
  then have "last n' = CHR ''8''" by simp
  moreover from e have "last n' = CHR ''z''" by simp
  ultimately show False by simp
qed

lemma rglob_mem:
  "m \<in> set (rglob s d pat) \<longleftrightarrow>
     is_dir s (parts d) \<and> m \<in> fst ` set s \<and> strict_prefix (parts d) m \<and> fnmatch (name m) pat"
  by (auto simp: rglob_def)

lemma in_keys_lookup: "m \<noteq> [] \<Longrightarrow> m \<in> fst ` set s \<longleftrightarrow> lookup s m \<noteq> None"
  by (simp add: lookup_def map_of_eq_None_iff)

lemma rglob_distinct: "distinct (map fst s) \<Longrightarrow> distinct (rglob s d pat)"
  by (simp add: rglob_def)

text \<open>
  \<^verbatim>\<open>compress_fmp4\<close> on a directory whose manifests are regular files directly under it:
  each manifest ends up holding the encoder's output for its former content, the
  temporary files are gone, nothing else changes, and the glob matches the same paths
  afterwards.
\<close>

lemma compress_fmp4_flat:
  assumes wf: "distinct (map fst (files w))"
    and flat: "\<forall>m \<in> set (rglob (files w) d ''*.m3u8'').
           valid_name (name m) \<and> m = parts d @ [name m] \<and>
           (\<exists>b. lookup (files w) m = Some (File b)) \<and>
           lookup (files w) (parts d @ [name m @ ''.gz'']) \<noteq> Some Dir"
  shows "\<exists>w'. compress_fmp4 X d w = (Inr (), w') \<and>
          (\<forall>q. lookup (files w') q =
             (if q \<in> set (rglob (files w) d ''*.m3u8'')
              then (case lookup (files w) q of
                      Some (File b) \<Rightarrow> Some (File (gzip_compress X b)) | x \<Rightarrow> x)
              else if q \<in> (\<lambda>m. parts d @ [name m @ ''.gz'']) `
                            set (rglob (files w) d ''*.m3u8'') then None
              else lookup (files w) q)) \<and>
          distinct (map fst (files w')) \<and>
          set (rglob (files w') d ''*.m3u8'') = set (rglob (files w) d ''*.m3u8'')"
proof -
  define pat where "pat = ''*.m3u8''"
  define ps where "ps = rglob (files w) d pat"
  define gp where "gp = (\<lambda>m. parts d @ [name m @ ''.gz''])"
  define zf where "zf = (\<lambda>x. case x of
                      Some (File b) \<Rightarrow> Some (File (gzip_compress X b)) | x \<Rightarrow> x)"
  have gp_eq: "parts d @ [name a @ ''.gz''] = gp a" for a
    by (simp add: gp_def)
  have zf_eq: "(case x of Some (File b) \<Rightarrow> Some (File (gzip_compress X b)) | x \<Rightarrow> x) = zf x"
    for x
    by (simp add: zf_def)
  note flat' = flat[folded pat_def, folded ps_def, unfolded gp_eq]
  have match: "fnmatch (name m) pat \<and> strict_prefix (parts d) m" if "m \<in> set ps" for m
    using that by (simp add: ps_def rglob_mem)
  have gp_not_match: "\<not> fnmatch (name (gp a)) pat" for a
    using manifest_name_not_gz[of "name (gp a)" "name a"]
    by (auto simp: gp_def name_def pat_def)
  have gp_not_ps: "gp a \<notin> set ps" for a
    using match gp_not_match by blast
  have dps: "distinct ps"
    unfolding ps_def using wf by (rule rglob_distinct)
  have c3: "\<forall>m \<in> set ps. \<forall>m' \<in> set ps. m' \<noteq> parts d @ [name m @ ''.gz'']"
    unfolding gp_eq using gp_not_ps by metis
  have loop: "\<exists>w1. compress_loop X d ps w = (Inr (), w1) \<and>
          (\<forall>q. lookup (files w1) q =
             (if q \<in> set ps then zf (lookup (files w) q)
              else if q \<in> gp ` set ps then None else lookup (files w) q)) \<and>
          (distinct (map fst (files w)) \<longrightarrow> distinct (map fst (files w1)))"
  proof (cases "is_dir (files w) (parts d)")
    case True
    show ?thesis
      using compress_loop_flat[OF dps flat[folded pat_def, folded ps_def] c3 True, of X]
      unfolding gp_eq zf_eq .
  next
    case False
    then have "ps = []" by (simp add: ps_def rglob_def)
    then show ?thesis by simp
  qed
  then obtain w1 where r: "compress_loop X d ps w = (Inr (), w1)"
    and l: "\<And>q. lookup (files w1) q =
             (if q \<in> set ps then zf (lookup (files w) q)
              else if q \<in> gp ` set ps then None else lookup (files w) q)"
    and d1: "distinct (map fst (files w1))"
    using wf by blast
  define w' where "w' = print ''Compressed all files with gzip'' w1"
  have f': "files w' = files w1"
    by (simp add: w'_def print_def files_log)
  have res: "compress_fmp4 X d w = (Inr (), w')"
    using r by (simp add: compress_fmp4_def ps_def pat_def w'_def)
  have dir: "is_dir (files w1) (parts d) = is_dir (files w) (parts d)"
  proof -
    have "parts d \<notin> set ps" using match by auto
    moreover have "parts d \<notin> gp ` set ps" by (auto simp: gp_def)
    ultimately show ?thesis by (simp add: is_dir_lookup l)
  qed
  have same: "m \<in> set (rglob (files w1) d pat) \<longleftrightarrow> m \<in> set ps" for m
  proof (cases "strict_prefix (parts d) m \<and> fnmatch (name m) pat")
    case False
    then show ?thesis by (auto simp: ps_def rglob_mem)
  next
    case True
    then have ne: "m \<noteq> []" by auto
    have ngp: "m \<notin> gp ` set ps"
      using True gp_not_match by auto
    have in1: "m \<in> set (rglob (files w1) d pat) \<longleftrightarrow>
                 is_dir (files w) (parts d) \<and> lookup (files w1) m \<noteq> None"
      using True by (simp add: rglob_mem in_keys_lookup[OF ne] dir)
    have in0: "m \<in> set ps \<longleftrightarrow> is_dir (files w) (parts d) \<and> lookup (files w) m \<noteq> None"
      using True by (simp add: ps_def rglob_mem in_keys_lookup[OF ne])
    show ?thesis
    proof (cases "m \<in> set ps")
      case m: True
      then obtain b where "lookup (files w) m = Some (File b)"
        using flat' by blast
      then have "lookup (files w1) m \<noteq> None"
        using m by (simp add: l zf_def)
      then show ?thesis using m in0 in1 by simp
    next
      case m: False
      then have "lookup (files w1) m = lookup (files w) m"
        using ngp by (simp add: l)
      then show ?thesis using in0 in1 by simp
    qed
  qed
  have fin: "compress_fmp4 X d w = (Inr (), w') \<and>
          (\<forall>q. lookup (files w') q =
             (if q \<in> set ps then zf (lookup (files w) q)
              else if q \<in> gp ` set ps then None else lookup (files w) q)) \<and>
          distinct (map fst (files w')) \<and>
          set (rglob (files w') d pat) = set ps"
    using res l d1 same by (auto simp: f')
  show ?thesis
    using fin unfolding ps_def pat_def gp_def zf_def by (intro exI[of _ w'])
qed

lemma tmp_not_matched: "parts d @ [name m @ ''.gz''] \<notin> set (rglob s d ''*.m3u8'')"
proof
  assume "parts d @ [name m @ ''.gz''] \<in> set (rglob s d ''*.m3u8'')"
  then have "fnmatch (name (parts d @ [name m @ ''.gz''])) ''*.m3u8''"
    by (simp add: rglob_mem)
  then have "fnmatch (name m @ ''.gz'') ''*.m3u8''"
    by (simp add: name_def)
  then show False
    using manifest_name_not_gz[of "name m @ ''.gz''" "name m"] by simp
qed

section \<open>Compressing twice\<close>

text \<open>
  C5, as the code has it. \<^verbatim>\<open>compress_fmp4\<close> does not look at what a manifest holds and
  keeps no record of having run. On a directory whose manifests are regular files
  directly under it, a second run is not rejected: both runs return and print the same
  message, and every manifest ends up holding the encoding of its encoded content.
\<close>

theorem second_compression_double_encodes:
  assumes wf: "distinct (map fst (files w))"
    and flat: "list_all
           (\<lambda>m. valid_name (name m) \<and> m = parts d @ [name m] \<and>
                (case lookup (files w) m of Some (File b) \<Rightarrow> True | _ \<Rightarrow> False) \<and>
                lookup (files w) (parts d @ [name m @ ''.gz'']) \<noteq> Some Dir)
           (rglob (files w) d ''*.m3u8'')"
  shows "\<exists>w1 w2. compress_fmp4 X d w = (Inr (), w1) \<and> compress_fmp4 X d w1 = (Inr (), w2) \<and>
           stdout w1 = stdout w @ [''Compressed all files with gzip''] \<and>
           stdout w2 = stdout w1 @ [''Compressed all files with gzip''] \<and>
           (\<forall>m b. m \<in> set (rglob (files w) d ''*.m3u8'') \<and> lookup (files w) m = Some (File b) \<longrightarrow>
              lookup (files w1) m = Some (File (gzip_compress X b)) \<and>
              lookup (files w2) m = Some (File (gzip_compress X (gzip_compress X b))))"
proof -
  define pat where "pat = ''*.m3u8''"
  define ps where "ps = rglob (files w) d pat"
  define gp where "gp = (\<lambda>m. parts d @ [name m @ ''.gz''])"
  define zf where "zf = (\<lambda>x. case x of
                      Some (File b) \<Rightarrow> Some (File (gzip_compress X b)) | x \<Rightarrow> x)"
  have gp_eq: "parts d @ [name a @ ''.gz''] = gp a" for a
    by (simp add: gp_def)
  have zf_eq: "(case x of Some (File b) \<Rightarrow> Some (File (gzip_compress X b)) | x \<Rightarrow> x) = zf x"
    for x
    by (simp add: zf_def)
  have zf_File: "zf (Some (File b)) = Some (File (gzip_compress X b))" for b
    by (simp add: zf_def)
  have gp_not: "gp a \<notin> set (rglob s d pat)" for a s
    unfolding gp_def pat_def by (rule tmp_not_matched)
  have flat0: "\<forall>m \<in> set ps. valid_name (name m) \<and> m = parts d @ [name m] \<and>
           (\<exists>b. lookup (files w) m = Some (File b)) \<and> lookup (files w) (gp m) \<noteq> Some Dir"
  proof
    fix m assume m: "m \<in> set ps"
    have "\<forall>m \<in> set ps. valid_name (name m) \<and> m = parts d @ [name m] \<and>
            (case lookup (files w) m of Some (File b) \<Rightarrow> True | _ \<Rightarrow> False) \<and>
            lookup (files w) (gp m) \<noteq> Some Dir"
      using flat unfolding gp_eq ps_def pat_def by (simp add: list_all_iff)
    with m have a: "valid_name (name m) \<and> m = parts d @ [name m] \<and>
            (case lookup (files w) m of Some (File b) \<Rightarrow> True | _ \<Rightarrow> False) \<and>
            lookup (files w) (gp m) \<noteq> Some Dir"
      by (rule bspec[rotated])
    then have "\<exists>b. lookup (files w) m = Some (File b)"
      by (cases "lookup (files w) m") (auto split: node.splits)
    with a show "valid_name (name m) \<and> m = parts d @ [name m] \<and>
           (\<exists>b. lookup (files w) m = Some (File b)) \<and> lookup (files w) (gp m) \<noteq> Some Dir"
      by simp
  qed
  have flat0': "\<forall>m \<in> set (rglob (files w) d ''*.m3u8'').
           valid_name (name m) \<and> m = parts d @ [name m] \<and>
           (\<exists>b. lookup (files w) m = Some (File b)) \<and>
           lookup (files w) (parts d @ [name m @ ''.gz'']) \<noteq> Some Dir"
    using flat0 unfolding gp_def ps_def pat_def .
  have "\<exists>w'. compress_fmp4 X d w = (Inr (), w') \<and>
          (\<forall>q. lookup (files w') q =
             (if q \<in> set ps then zf (lookup (files w) q)
              else if q \<in> gp ` set ps then None else lookup (files w) q)) \<and>
          distinct (map fst (files w')) \<and>
          set (rglob (files w') d pat) = set ps"
    using compress_fmp4_flat[OF wf flat0', of X]
    unfolding gp_eq zf_eq pat_def[symmetric] ps_def[symmetric] .
  then obtain w1 where r1: "compress_fmp4 X d w = (Inr (), w1)"
    and l1: "\<And>q. lookup (files w1) q =
             (if q \<in> set ps then zf (lookup (files w) q)
              else if q \<in> gp ` set ps then None else lookup (files w) q)"
    and d1: "distinct (map fst (files w1))"
    and s1: "set (rglob (files w1) d pat) = set ps"
    by blast
  have flat1: "\<forall>m \<in> set (rglob (files w1) d pat). valid_name (name m) \<and> m = parts d @ [name m] \<and>
           (\<exists>b. lookup (files w1) m = Some (File b)) \<and> lookup (files w1) (gp m) \<noteq> Some Dir"
  proof
    fix m assume "m \<in> set (rglob (files w1) d pat)"
    then have m: "m \<in> set ps" using s1 by simp
    then obtain b where b: "lookup (files w) m = Some (File b)"
      and v: "valid_name (name m)" "m = parts d @ [name m]"
      using flat0 by blast
    have 1: "lookup (files w1) m = Some (File (gzip_compress X b))"
      using m b by (simp add: l1 zf_File)
    have "gp m \<notin> set ps" unfolding ps_def by (rule gp_not)
    then have 2: "lookup (files w1) (gp m) = None"
      using m by (simp add: l1)
    show "valid_name (name m) \<and> m = parts d @ [name m] \<and>
           (\<exists>b. lookup (files w1) m = Some (File b)) \<and> lookup (files w1) (gp m) \<noteq> Some Dir"
      using v 1 2 by simp
  qed
  have flat1': "\<forall>m \<in> set (rglob (files w1) d ''*.m3u8'').
           valid_name (name m) \<and> m = parts d @ [name m] \<and>
           (\<exists>b. lookup (files w1) m = Some (File b)) \<and>
           lookup (files w1) (parts d @ [name m @ ''.gz'']) \<noteq> Some Dir"
    using flat1 unfolding gp_def pat_def .
  have "\<exists>w'. compress_fmp4 X d w1 = (Inr (), w') \<and>
          (\<forall>q. lookup (files w') q =
             (if q \<in> set (rglob (files w1) d pat) then zf (lookup (files w1) q)
              else if q \<in> gp ` set (rglob (files w1) d pat) then None
              else lookup (files w1) q)) \<and>
          distinct (map fst (files w')) \<and>
          set (rglob (files w') d pat) = set (rglob (files w1) d pat)"
    using compress_fmp4_flat[OF d1 flat1', of X]
    unfolding gp_eq zf_eq pat_def[symmetric] .
  then obtain w2 where r2: "compress_fmp4 X d w1 = (Inr (), w2)"
    and l2: "\<And>q. lookup (files w2) q =
             (if q \<in> set ps then zf (lookup (files w1) q)
              else if q \<in> gp ` set ps then None else lookup (files w1) q)"
    unfolding s1 by blast
  have o1: "stdout w1 = stdout w @ [''Compressed all files with gzip'']"
    using compress_fmp4_stdout[of X d w] r1 by simp
  have o2: "stdout w2 = stdout w1 @ [''Compressed all files with gzip'']"
    using compress_fmp4_stdout[of X d w1] r2 by simp
  have twice: "\<forall>m b. m \<in> set ps \<and> lookup (files w) m = Some (File b) \<longrightarrow>
              lookup (files w1) m = Some (File (gzip_compress X b)) \<and>
              lookup (files w2) m = Some (File (gzip_compress X (gzip_compress X b)))"
    by (simp add: l1 l2 zf_File)
  have "compress_fmp4 X d w = (Inr (), w1) \<and> compress_fmp4 X d w1 = (Inr (), w2) \<and>
           stdout w1 = stdout w @ [''Compressed all files with gzip''] \<and>
           stdout w2 = stdout w1 @ [''Compressed all files with gzip''] \<and>
           (\<forall>m b. m \<in> set (rglob (files w) d ''*.m3u8'') \<and> lookup (files w) m = Some (File b) \<longrightarrow>
              lookup (files w1) m = Some (File (gzip_compress X b)) \<and>
              lookup (files w2) m = Some (File (gzip_compress X (gzip_compress X b))))"
    using r1 r2 o1 o2 twice unfolding ps_def pat_def by (intro conjI)
  then show ?thesis
    by (intro exI[of _ w1] exI[of _ w2])
qed

text \<open>
  The example directory compressed twice: the second run returns as the first did, and
  the manifest holds the encoding of the encoding.
\<close>

theorem second_compression_is_not_guarded:
  "compress_fmp4 demo_externals ''clip.fmp4'' \<lparr>files = demo_output, trace = []\<rparr> =
     (Inr (),
      \<lparr>files = [([''clip.fmp4''], Dir),
                ([''clip.fmp4'', ''index.m3u8''], File (demo_gzip [35, 69])),
                ([''clip.fmp4'', ''seg0.mp4''], File [3]),
                ([''clip.fmp4'', ''poster.jpg''], File [255, 216])],
       trace = [Open_rb ''clip.fmp4/index.m3u8'', Gzip_open_wb ''clip.fmp4/index.m3u8.gz'',
                Os_replace ''clip.fmp4/index.m3u8.gz'' ''clip.fmp4/index.m3u8'',
                Print ''Compressed all files with gzip'']\<rparr>)
   \<and> compress_fmp4 demo_externals ''clip.fmp4''
       (snd (compress_fmp4 demo_externals ''clip.fmp4'' \<lparr>files = demo_output, trace = []\<rparr>)) =
     (Inr (),
      \<lparr>files = [([''clip.fmp4''], Dir),
                ([''clip.fmp4'', ''index.m3u8''], File (demo_gzip (demo_gzip [35, 69]))),
                ([''clip.fmp4'', ''seg0.mp4''], File [3]),
                ([''clip.fmp4'', ''poster.jpg''], File [255, 216])],
       trace = [Open_rb ''clip.fmp4/index.m3u8'', Gzip_open_wb ''clip.fmp4/index.m3u8.gz'',
                Os_replace ''clip.fmp4/index.m3u8.gz'' ''clip.fmp4/index.m3u8'',
                Print ''Compressed all files with gzip'',
                Open_rb ''clip.fmp4/index.m3u8'', Gzip_open_wb ''clip.fmp4/index.m3u8.gz'',
                Os_replace ''clip.fmp4/index.m3u8.gz'' ''clip.fmp4/index.m3u8'',
                Print ''Compressed all files with gzip'']\<rparr>)
   \<and> demo_gzip (demo_gzip [35, 69]) \<noteq> demo_gzip [35, 69]"
  by (simp add: program_defs op_defs path_defs demo_defs Let_def)

theorem second_compression_double_encodes_witness:
  "distinct (map fst demo_output)
   \<and> fst (compress_fmp4 demo_externals ''clip.fmp4''
            (snd (compress_fmp4 demo_externals ''clip.fmp4''
                    \<lparr>files = demo_output, trace = []\<rparr>))) = Inr ()
   \<and> lookup (files (snd (compress_fmp4 demo_externals ''clip.fmp4''
                          (snd (compress_fmp4 demo_externals ''clip.fmp4''
                                  \<lparr>files = demo_output, trace = []\<rparr>)))))
         [''clip.fmp4'', ''index.m3u8''] =
       Some (File (demo_gzip (demo_gzip [35, 69])))"
proof -
  define w where "w = \<lparr>files = demo_output, trace = []\<rparr>"
  define d where "d = ''clip.fmp4''"
  define m where "m = [''clip.fmp4'', ''index.m3u8'']"
  define X where "X = demo_externals"
  have wf: "distinct (map fst (files w))"
    by (simp add: w_def demo_output_def)
  have flat: "list_all
           (\<lambda>m. valid_name (name m) \<and> m = parts d @ [name m] \<and>
                (case lookup (files w) m of Some (File b) \<Rightarrow> True | _ \<Rightarrow> False) \<and>
                lookup (files w) (parts d @ [name m @ ''.gz'']) \<noteq> Some Dir)
           (rglob (files w) d ''*.m3u8'')"
    by (simp add: w_def d_def demo_output_def op_defs path_defs valid_name_def)
  have mem: "m \<in> set (rglob (files w) d ''*.m3u8'') \<and> lookup (files w) m = Some (File [35, 69])"
    by (simp add: w_def d_def m_def demo_output_def op_defs path_defs)
  have gz: "gzip_compress X = demo_gzip"
    by (simp add: X_def demo_externals_def)
  from second_compression_double_encodes[OF wf flat, of X]
  obtain w1 w2 where r1: "compress_fmp4 X d w = (Inr (), w1)"
    and r2: "compress_fmp4 X d w1 = (Inr (), w2)"
    and tw: "\<forall>m b. m \<in> set (rglob (files w) d ''*.m3u8'') \<and> lookup (files w) m = Some (File b) \<longrightarrow>
              lookup (files w1) m = Some (File (gzip_compress X b)) \<and>
              lookup (files w2) m = Some (File (gzip_compress X (gzip_compress X b)))"
    by blast
  from tw mem have "lookup (files w2) m = Some (File (gzip_compress X (gzip_compress X [35, 69])))"
    by blast
  then have a: "lookup (files (snd (compress_fmp4 X d (snd (compress_fmp4 X d w))))) m =
                  Some (File (demo_gzip (demo_gzip [35, 69])))"
    using r1 r2 gz by simp
  have b: "fst (compress_fmp4 X d (snd (compress_fmp4 X d w))) = Inr ()"
    using r1 r2 by simp
  have c: "distinct (map fst demo_output)"
    using wf by (simp add: w_def)
  show ?thesis
    using a b c unfolding w_def d_def m_def X_def by (intro conjI)
qed

section \<open>Matches in subdirectories\<close>

text \<open>
  C2 at a directory with a manifest in a subdirectory. With a manifest of the same name
  at the top, the top-level file is compressed twice and the nested one is left as it
  was; with no such file at the top, \<^verbatim>\<open>open\<close> raises and nothing is compressed.
\<close>

theorem nested_manifest_is_not_compressed:
  "compress_fmp4 X ''clip.fmp4'' \<lparr>files = nested_output, trace = []\<rparr> =
     (Inr (),
      \<lparr>files = [([''clip.fmp4''], Dir),
                ([''clip.fmp4'', ''index.m3u8''],
                 File (gzip_compress X (gzip_compress X [35, 69]))),
                ([''clip.fmp4'', ''sub''], Dir),
                ([''clip.fmp4'', ''sub'', ''index.m3u8''], File [35, 70])],
       trace = [Open_rb ''clip.fmp4/index.m3u8'', Gzip_open_wb ''clip.fmp4/index.m3u8.gz'',
                Os_replace ''clip.fmp4/index.m3u8.gz'' ''clip.fmp4/index.m3u8'',
                Open_rb ''clip.fmp4/index.m3u8'', Gzip_open_wb ''clip.fmp4/index.m3u8.gz'',
                Os_replace ''clip.fmp4/index.m3u8.gz'' ''clip.fmp4/index.m3u8'',
                Print ''Compressed all files with gzip'']\<rparr>)
   \<and> compress_fmp4 X ''clip.fmp4'' \<lparr>files = nested_only_output, trace = []\<rparr> =
     (Inl (FileNotFoundError ''clip.fmp4/index.m3u8''),
      \<lparr>files = nested_only_output, trace = [Open_rb ''clip.fmp4/index.m3u8'']\<rparr>)"
  by (simp add: program_defs op_defs path_defs demo_defs Let_def)

text \<open>
  C3 at the same two directories. The key \<^verbatim>\<open>hls/clip.fmp4/index.m3u8\<close> is uploaded
  twice, both times with the bytes of the top-level file, and the bytes of the nested
  file are never uploaded; with no such file at the top, \<^verbatim>\<open>open\<close> raises and nothing
  is uploaded.
\<close>

theorem nested_file_is_not_uploaded:
  "upload_to_aws demo_externals demo_client ''bucket'' ''region'' ''clip.fmp4''
     \<lparr>files = nested_output, trace = []\<rparr> =
     (Inr ''https://bucket.s3.region.amazonaws.com/hls/clip.fmp4/index.m3u8'',
      \<lparr>files = nested_output,
       trace = [Open_rb ''clip.fmp4/index.m3u8'',
                Upload_fileobj demo_client
                  \<lparr>Fileobj = [35, 69], Bucket = ''bucket'',
                   Key = ''hls/clip.fmp4/index.m3u8'', ExtraArgs = m3u8_args\<rparr>,
                Open_rb ''clip.fmp4/index.m3u8'',
                Upload_fileobj demo_client
                  \<lparr>Fileobj = [35, 69], Bucket = ''bucket'',
                   Key = ''hls/clip.fmp4/index.m3u8'', ExtraArgs = m3u8_args\<rparr>]\<rparr>)
   \<and> upload_to_aws X s3 ''bucket'' ''region'' ''clip.fmp4''
       \<lparr>files = nested_only_output, trace = []\<rparr> =
     (Inl (FileNotFoundError ''clip.fmp4/index.m3u8''),
      \<lparr>files = nested_only_output, trace = [Open_rb ''clip.fmp4/index.m3u8'']\<rparr>)"
  by (simp add: upload_to_aws_def get_object_url_def op_defs path_defs demo_defs Let_def)

end
